theory Spec2Isabelle
  imports Main
begin

section \<open>The CSS selector builder: objects in a store\<close>

text \<open>
  The builder is the JavaScript class \<open>Selector\<close> together with the facade object
  \<open>cssSelectorBuilder\<close>. Every method of the class mutates the receiver and returns
  it, \<open>combine\<close> copies the fields of one object into another with \<open>Object.assign\<close>
  and keeps a reference to a third one, and \<open>stringify\<close> follows that reference.
  Objects are therefore modelled by reference: a store maps addresses to the field
  values of \<open>Selector\<close> objects, and a second store maps addresses to the contents of
  the three arrays every \<open>Selector\<close> owns.

  Values passed to the methods are strings. A field that may hold \<open>null\<close> or a string
  is a \<open>string option\<close>; the field \<open>selector2\<close> holds \<open>null\<close> or a reference.
\<close>

type_synonym addr = nat

record Selector =
  index_of_selector :: int
  element_val :: "string option"
  id_val :: "string option"
  classes :: addr
  attributes :: addr
  pseudoClasses :: addr
  pseudoElement_val :: "string option"
  combinator :: "string option"
  selector2 :: "addr option"

text \<open>
  The tenth field of the class, \<open>selectors\<close>, is assigned the same array literal by
  the constructor of every instance and no method writes to it or to the array, so it
  is a constant here.
\<close>

definition selectors :: "string list" where
  "selectors =
     [''element'', ''id'', ''class'', ''attr'', ''pseudoClass'', ''pseudoElement'', ''combine'']"

record heap =
  objs :: "addr \<Rightarrow> Selector"
  nobj :: nat
  arrs :: "addr \<Rightarrow> string list"
  narr :: nat

text \<open>
  Both messages are thrown as a plain \<open>Error\<close>; the two constructors stand for the two
  message texts: "Selector parts should be arranged in the following order: ..." and
  "Element, id and pseudo-element should not occur more then one time inside the
  selector".
\<close>

datatype error = OrderViolationError | DuplicateFragmentError

text \<open>
  A call either throws, leaving the store as it is at the \<open>throw\<close>, or returns its
  value with the store it has produced.
\<close>

type_synonym 'a outcome = "(error \<times> heap) + ('a \<times> heap)"

subsection \<open>JavaScript primitives used by the class\<close>

text \<open>\<open>if (x)\<close> on a field holding \<open>null\<close> or a string: \<open>null\<close> and \<open>''\<close> are falsy.\<close>

definition truthy :: "string option \<Rightarrow> bool" where
  "truthy x = (case x of None \<Rightarrow> False | Some s \<Rightarrow> s \<noteq> [])"

text \<open>\<open>Array.prototype.indexOf\<close>: the first index holding the value, or \<open>-1\<close>.\<close>

fun indexOf :: "'a list \<Rightarrow> 'a \<Rightarrow> int" where
  "indexOf [] x = - 1"
| "indexOf (y # ys) x =
     (if y = x then 0 else (let i = indexOf ys x in if i < 0 then - 1 else i + 1))"

definition set_obj :: "heap \<Rightarrow> addr \<Rightarrow> Selector \<Rightarrow> heap" where
  "set_obj h a ob = h\<lparr>objs := (objs h)(a := ob)\<rparr>"

text \<open>\<open>Array.prototype.push\<close> on the array stored at \<open>a\<close>.\<close>

definition push :: "heap \<Rightarrow> addr \<Rightarrow> string \<Rightarrow> heap" where
  "push h a v = h\<lparr>arrs := (arrs h)(a := arrs h a @ [v])\<rparr>"

subsection \<open>The class \<open>Selector\<close>\<close>

text \<open>\<open>new Selector()\<close>: a fresh object with three fresh empty arrays.\<close>

definition new_Selector :: "heap \<Rightarrow> addr \<times> heap" where
  "new_Selector h =
     (nobj h,
      h\<lparr>objs := (objs h)(nobj h :=
           \<lparr>index_of_selector = 0, element_val = None, id_val = None,
            classes = narr h, attributes = narr h + 1, pseudoClasses = narr h + 2,
            pseudoElement_val = None, combinator = None, selector2 = None\<rparr>),
        nobj := nobj h + 1,
        arrs := (arrs h)(narr h := [], narr h + 1 := [], narr h + 2 := []),
        narr := narr h + 3\<rparr>)"

definition check_order :: "heap \<Rightarrow> addr \<Rightarrow> string \<Rightarrow> unit outcome" where
  "check_order h this curr_elem =
     (if index_of_selector (objs h this) > indexOf selectors curr_elem
      then Inl (OrderViolationError, h)
      else Inr ((), set_obj h this
                 ((objs h this)\<lparr>index_of_selector := indexOf selectors curr_elem\<rparr>)))"

definition Selector_element :: "heap \<Rightarrow> addr \<Rightarrow> string \<Rightarrow> addr outcome" where
  "Selector_element h this v =
     (case check_order h this ''element'' of
        Inl e \<Rightarrow> Inl e
      | Inr (u, h1) \<Rightarrow>
          if \<not> truthy (element_val (objs h1 this))
          then Inr (this, set_obj h1 this ((objs h1 this)\<lparr>element_val := Some v\<rparr>))
          else Inl (DuplicateFragmentError, h1))"

definition Selector_id :: "heap \<Rightarrow> addr \<Rightarrow> string \<Rightarrow> addr outcome" where
  "Selector_id h this v =
     (case check_order h this ''id'' of
        Inl e \<Rightarrow> Inl e
      | Inr (u, h1) \<Rightarrow>
          if \<not> truthy (id_val (objs h1 this))
          then Inr (this, set_obj h1 this ((objs h1 this)\<lparr>id_val := Some v\<rparr>))
          else Inl (DuplicateFragmentError, h1))"

definition Selector_class :: "heap \<Rightarrow> addr \<Rightarrow> string \<Rightarrow> addr outcome" where
  "Selector_class h this v =
     (case check_order h this ''class'' of
        Inl e \<Rightarrow> Inl e
      | Inr (u, h1) \<Rightarrow> Inr (this, push h1 (classes (objs h1 this)) v))"

definition Selector_attr :: "heap \<Rightarrow> addr \<Rightarrow> string \<Rightarrow> addr outcome" where
  "Selector_attr h this v =
     (case check_order h this ''attr'' of
        Inl e \<Rightarrow> Inl e
      | Inr (u, h1) \<Rightarrow> Inr (this, push h1 (attributes (objs h1 this)) v))"

definition Selector_pseudoClass :: "heap \<Rightarrow> addr \<Rightarrow> string \<Rightarrow> addr outcome" where
  "Selector_pseudoClass h this v =
     (case check_order h this ''pseudoClass'' of
        Inl e \<Rightarrow> Inl e
      | Inr (u, h1) \<Rightarrow> Inr (this, push h1 (pseudoClasses (objs h1 this)) v))"

definition Selector_pseudoElement :: "heap \<Rightarrow> addr \<Rightarrow> string \<Rightarrow> addr outcome" where
  "Selector_pseudoElement h this v =
     (case check_order h this ''pseudoElement'' of
        Inl e \<Rightarrow> Inl e
      | Inr (u, h1) \<Rightarrow>
          if \<not> truthy (pseudoElement_val (objs h1 this))
          then Inr (this, set_obj h1 this ((objs h1 this)\<lparr>pseudoElement_val := Some v\<rparr>))
          else Inl (DuplicateFragmentError, h1))"

text \<open>
  \<open>Object.assign(this, selector1)\<close> writes every own field of \<open>selector1\<close> into
  \<open>this\<close>: the cursor, the three values, the references to the three arrays of
  \<open>selector1\<close> (the arrays are not copied), and its \<open>combinator\<close> and \<open>selector2\<close>,
  which the next two assignments overwrite. The fields of \<open>selector1\<close> are read after
  \<open>check_order\<close> has run, which matters when \<open>selector1\<close> is \<open>this\<close>. The parameters
  \<open>combinator\<close> and \<open>selector2\<close> of the method are \<open>symbol\<close> and \<open>right\<close> here, the two
  names being those of the fields.
\<close>

definition Selector_combine :: "heap \<Rightarrow> addr \<Rightarrow> addr \<Rightarrow> string \<Rightarrow> addr \<Rightarrow> addr outcome" where
  "Selector_combine h this selector1 symbol right =
     (case check_order h this ''combine'' of
        Inl e \<Rightarrow> Inl e
      | Inr (u, h1) \<Rightarrow>
          (let h2 = set_obj h1 this (objs h1 selector1);
               h3 = set_obj h2 this ((objs h2 this)\<lparr>combinator := Some symbol\<rparr>);
               h4 = set_obj h3 this ((objs h3 this)\<lparr>selector2 := Some right\<rparr>)
           in Inr (this, h4)))"

text \<open>
  \<open>stringify\<close> builds \<open>result\<close> by appending; the three \<open>forEach\<close> loops are folds over
  the arrays. \<open>stringify_own\<close> is the part of the method before the test of
  \<open>combinator\<close> and \<open>selector2\<close>.
\<close>

definition stringify_own :: "heap \<Rightarrow> Selector \<Rightarrow> string" where
  "stringify_own h ob =
     (let result = [];
          result = (if truthy (element_val ob) then result @ the (element_val ob) else result);
          result = (if truthy (id_val ob) then result @ ''#'' @ the (id_val ob) else result);
          result = fold (\<lambda>v r. r @ ''.'' @ v) (arrs h (classes ob)) result;
          result = fold (\<lambda>v r. r @ ''['' @ v @ '']'') (arrs h (attributes ob)) result;
          result = fold (\<lambda>v r. r @ '':'' @ v) (arrs h (pseudoClasses ob)) result;
          result = (if truthy (pseudoElement_val ob)
                    then result @ ''::'' @ the (pseudoElement_val ob) else result)
      in result)"

text \<open>
  The recursive call follows \<open>selector2\<close>, which may lead back to an object already
  being rendered; the method then recurses until the engine stops it with a
  \<open>RangeError\<close>, and no string is returned. \<open>None\<close> is that outcome. The depth of the
  call stack is not modelled: a finite chain renders, however long it is.
\<close>

partial_function (option) Selector_stringify :: "heap \<Rightarrow> addr \<Rightarrow> string option" where
  "Selector_stringify h this =
     (if truthy (combinator (objs h this)) \<and> selector2 (objs h this) \<noteq> None
      then Option.bind (Selector_stringify h (the (selector2 (objs h this))))
             (\<lambda>s. Some (stringify_own h (objs h this) @ '' ''
                          @ the (combinator (objs h this)) @ '' '' @ s))
      else Some (stringify_own h (objs h this)))"

declare Selector_stringify.simps [code]

subsection \<open>The facade \<open>cssSelectorBuilder\<close>\<close>

definition cssSelectorBuilder_element :: "heap \<Rightarrow> string \<Rightarrow> addr outcome" where
  "cssSelectorBuilder_element h v = (case new_Selector h of (a, h1) \<Rightarrow> Selector_element h1 a v)"

definition cssSelectorBuilder_id :: "heap \<Rightarrow> string \<Rightarrow> addr outcome" where
  "cssSelectorBuilder_id h v = (case new_Selector h of (a, h1) \<Rightarrow> Selector_id h1 a v)"

definition cssSelectorBuilder_class :: "heap \<Rightarrow> string \<Rightarrow> addr outcome" where
  "cssSelectorBuilder_class h v = (case new_Selector h of (a, h1) \<Rightarrow> Selector_class h1 a v)"

definition cssSelectorBuilder_attr :: "heap \<Rightarrow> string \<Rightarrow> addr outcome" where
  "cssSelectorBuilder_attr h v = (case new_Selector h of (a, h1) \<Rightarrow> Selector_attr h1 a v)"

definition cssSelectorBuilder_pseudoClass :: "heap \<Rightarrow> string \<Rightarrow> addr outcome" where
  "cssSelectorBuilder_pseudoClass h v =
     (case new_Selector h of (a, h1) \<Rightarrow> Selector_pseudoClass h1 a v)"

definition cssSelectorBuilder_pseudoElement :: "heap \<Rightarrow> string \<Rightarrow> addr outcome" where
  "cssSelectorBuilder_pseudoElement h v =
     (case new_Selector h of (a, h1) \<Rightarrow> Selector_pseudoElement h1 a v)"

definition cssSelectorBuilder_combine :: "heap \<Rightarrow> addr \<Rightarrow> string \<Rightarrow> addr \<Rightarrow> addr outcome" where
  "cssSelectorBuilder_combine h selector1 symbol right =
     (case new_Selector h of (a, h1) \<Rightarrow> Selector_combine h1 a selector1 symbol right)"

subsection \<open>Calls in sequence\<close>

text \<open>
  \<open>x.m(v)\<close> where \<open>x\<close> is itself the result of a call: when the first call throws, the
  second is not made. \<open>combine_of\<close> is \<open>cssSelectorBuilder.combine(e1, symbol, e2)\<close> for
  two argument expressions, evaluated left to right before the call.
\<close>

definition then_call :: "addr outcome \<Rightarrow> (heap \<Rightarrow> addr \<Rightarrow> 'a outcome) \<Rightarrow> 'a outcome" where
  "then_call r m = (case r of Inl e \<Rightarrow> Inl e | Inr (a, h) \<Rightarrow> m h a)"

definition combine_of ::
  "(heap \<Rightarrow> addr outcome) \<Rightarrow> string \<Rightarrow> (heap \<Rightarrow> addr outcome) \<Rightarrow> heap \<Rightarrow> addr outcome" where
  "combine_of e1 symbol e2 h =
     (case e1 h of
        Inl e \<Rightarrow> Inl e
      | Inr (a1, h1) \<Rightarrow>
          (case e2 h1 of
             Inl e \<Rightarrow> Inl e
           | Inr (a2, h2) \<Rightarrow> cssSelectorBuilder_combine h2 a1 symbol a2))"

text \<open>What a call did: whether it returned, what it threw, and the store it left.\<close>

definition returns :: "'a outcome \<Rightarrow> bool" where
  "returns r = (case r of Inl x \<Rightarrow> False | Inr x \<Rightarrow> True)"

definition throws :: "'a outcome \<Rightarrow> error \<Rightarrow> bool" where
  "throws r e = (case r of Inl (e', h) \<Rightarrow> e' = e | Inr x \<Rightarrow> False)"

definition heap_of :: "'a outcome \<Rightarrow> heap" where
  "heap_of r = (case r of Inl (e, h) \<Rightarrow> h | Inr (a, h) \<Rightarrow> h)"

text \<open>
  \<open>x.stringify()\<close> for the result \<open>x\<close> of a call; \<open>None\<close> also when that call has
  thrown, since then no string is produced.
\<close>

definition stringify_of :: "addr outcome \<Rightarrow> string option" where
  "stringify_of r = (case r of Inl e \<Rightarrow> None | Inr (a, h) \<Rightarrow> Selector_stringify h a)"

text \<open>The store before any object has been created.\<close>

definition blank :: Selector where
  "blank = \<lparr>index_of_selector = 0, element_val = None, id_val = None,
            classes = 0, attributes = 0, pseudoClasses = 0,
            pseudoElement_val = None, combinator = None, selector2 = None\<rparr>"

definition empty_heap :: heap where
  "empty_heap = \<lparr>objs = (\<lambda>_. blank), nobj = 0, arrs = (\<lambda>_. []), narr = 0\<rparr>"

subsection \<open>Example expressions\<close>

text \<open>
  \<open>combine(element('div').id('main'), '+', element('table').id('data'))\<close>, evaluated in
  the empty store.
\<close>

definition example_plus :: "addr outcome" where
  "example_plus =
     combine_of
       (\<lambda>h. then_call (cssSelectorBuilder_element h ''div'') (\<lambda>h a. Selector_id h a ''main''))
       ''+''
       (\<lambda>h. then_call (cssSelectorBuilder_element h ''table'') (\<lambda>h a. Selector_id h a ''data''))
       empty_heap"

text \<open>
  The example in the comment above \<open>cssSelectorBuilder\<close>:
  \<^verbatim>\<open>
  builder.combine(
      builder.element('div').id('main').class('container').class('draggable'),
      '+',
      builder.combine(
          builder.element('table').id('data'),
          '~',
          builder.combine(
              builder.element('tr').pseudoClass('nth-of-type(even)'),
              ' ',
              builder.element('td').pseudoClass('nth-of-type(even)'))))
  \<close>
\<close>

definition example_nested :: "addr outcome" where
  "example_nested =
     combine_of
       (\<lambda>h. then_call
              (then_call
                (then_call (cssSelectorBuilder_element h ''div'') (\<lambda>h a. Selector_id h a ''main''))
                (\<lambda>h a. Selector_class h a ''container''))
              (\<lambda>h a. Selector_class h a ''draggable''))
       ''+''
       (combine_of
          (\<lambda>h. then_call (cssSelectorBuilder_element h ''table'')
                 (\<lambda>h a. Selector_id h a ''data''))
          ''~''
          (combine_of
             (\<lambda>h. then_call (cssSelectorBuilder_element h ''tr'')
                    (\<lambda>h a. Selector_pseudoClass h a ''nth-of-type(even)''))
             '' ''
             (\<lambda>h. then_call (cssSelectorBuilder_element h ''td'')
                    (\<lambda>h a. Selector_pseudoClass h a ''nth-of-type(even)''))))
       empty_heap"

text \<open>\<open>s = element('a'); s.combine(s, '+', s)\<close>: an object that is its own right-hand operand.\<close>

definition example_cycle :: "addr outcome" where
  "example_cycle =
     then_call (cssSelectorBuilder_element empty_heap ''a'')
       (\<lambda>h a. Selector_combine h a a ''+'' a)"

text \<open>
  \<open>combine(combine(element('a'), '+', element('b')), '~', element('c'))\<close>: the left
  operand is itself a combination.
\<close>

definition example_left_nested :: "addr outcome" where
  "example_left_nested =
     combine_of
       (combine_of (\<lambda>h. cssSelectorBuilder_element h ''a'') ''+''
          (\<lambda>h. cssSelectorBuilder_element h ''b''))
       ''~''
       (\<lambda>h. cssSelectorBuilder_element h ''c'')
       empty_heap"

text \<open>
  \<open>combine(combine(element('a'), '+', element('b')), '>', combine(element('c'), '~',
  element('d')))\<close>: both operands are combinations.
\<close>

definition example_both_nested :: "addr outcome" where
  "example_both_nested =
     combine_of
       (combine_of (\<lambda>h. cssSelectorBuilder_element h ''a'') ''+''
          (\<lambda>h. cssSelectorBuilder_element h ''b''))
       ''>''
       (combine_of (\<lambda>h. cssSelectorBuilder_element h ''c'') ''~''
          (\<lambda>h. cssSelectorBuilder_element h ''d''))
       empty_heap"

text \<open>The store after \<open>element('ul')\<close>, \<open>element('li')\<close> and \<open>element('a')\<close>.\<close>

definition example_operands :: heap where
  "example_operands =
     heap_of (cssSelectorBuilder_element
       (heap_of (cssSelectorBuilder_element
         (heap_of (cssSelectorBuilder_element empty_heap ''ul'')) ''li'')) ''a'')"

subsection \<open>The chain of right-hand operands\<close>

text \<open>
  \<open>stringify\<close> goes from an object to its \<open>selector2\<close> when the test
  \<open>this.combinator && this.selector2\<close> holds. \<open>on_chain h a b\<close>: rendering \<open>a\<close> reaches
  \<open>b\<close>. \<open>finite_chain h a\<close>: following the chain from \<open>a\<close> comes to an object where the
  test fails.
\<close>

definition chained :: "Selector \<Rightarrow> bool" where
  "chained ob = (truthy (combinator ob) \<and> selector2 ob \<noteq> None)"

inductive on_chain :: "heap \<Rightarrow> addr \<Rightarrow> addr \<Rightarrow> bool" for h :: heap and a :: addr where
  on_chain_self: "on_chain h a a"
| on_chain_next:
    "on_chain h a b \<Longrightarrow> chained (objs h b) \<Longrightarrow> selector2 (objs h b) = Some c \<Longrightarrow> on_chain h a c"


code_pred on_chain .


text \<open>
  Two stores hold the same accumulated state of \<open>a\<close>: every object that rendering \<open>a\<close>
  reaches has the same field values in both, and its three arrays the same contents.
\<close>

definition same_on_chain :: "heap \<Rightarrow> heap \<Rightarrow> addr \<Rightarrow> bool" where
  "same_on_chain h h' a =
     (\<forall>b. on_chain h a b \<longrightarrow>
        objs h' b = objs h b
        \<and> arrs h' (classes (objs h b)) = arrs h (classes (objs h b))
        \<and> arrs h' (attributes (objs h b)) = arrs h (attributes (objs h b))
        \<and> arrs h' (pseudoClasses (objs h b)) = arrs h (pseudoClasses (objs h b)))"

subsection \<open>The rendering rule as the specification words it\<close>

text \<open>
  The element value if set, then \<open>#\<close> and the id if set, then \<open>.\<close> and the class for
  each class in insertion order, then the attribute in brackets for each attribute,
  then \<open>:\<close> and the pseudo-class for each pseudo-class, then \<open>::\<close> and the
  pseudo-element if set, then, if both combinator and next are set, a space, the
  combinator, a space and the rendering of next. A field is set when it is not
  \<open>null\<close>.
\<close>

definition render_own_spec :: "heap \<Rightarrow> Selector \<Rightarrow> string" where
  "render_own_spec h ob =
     (case element_val ob of None \<Rightarrow> [] | Some e \<Rightarrow> e)
     @ (case id_val ob of None \<Rightarrow> [] | Some i \<Rightarrow> ''#'' @ i)
     @ concat (map (\<lambda>c. ''.'' @ c) (arrs h (classes ob)))
     @ concat (map (\<lambda>a. ''['' @ a @ '']'') (arrs h (attributes ob)))
     @ concat (map (\<lambda>p. '':'' @ p) (arrs h (pseudoClasses ob)))
     @ (case pseudoElement_val ob of None \<Rightarrow> [] | Some p \<Rightarrow> ''::'' @ p)"

partial_function (option) render_spec :: "heap \<Rightarrow> addr \<Rightarrow> string option" where
  "render_spec h a =
     (if combinator (objs h a) \<noteq> None \<and> selector2 (objs h a) \<noteq> None
      then Option.bind (render_spec h (the (selector2 (objs h a))))
             (\<lambda>s. Some (render_own_spec h (objs h a) @ '' ''
                          @ the (combinator (objs h a)) @ '' '' @ s))
      else Some (render_own_spec h (objs h a)))"

declare render_spec.simps [code]

text \<open>The values \<open>stringify\<close> tests for truth and the rule tests for being set.\<close>

definition no_empty_value :: "Selector \<Rightarrow> bool" where
  "no_empty_value ob =
     (id_val ob \<noteq> Some [] \<and> pseudoElement_val ob \<noteq> Some [] \<and> combinator ob \<noteq> Some [])"

subsection \<open>Stores that calls can produce\<close>

text \<open>
  A store is reachable when it results from calls of the constructor and of the
  methods on objects that exist, whether a call has returned or thrown.
\<close>

inductive reachable :: "heap \<Rightarrow> bool" where
  reachable_empty: "reachable empty_heap"
| reachable_new: "reachable h \<Longrightarrow> reachable (snd (new_Selector h))"
| reachable_element:
    "reachable h \<Longrightarrow> this < nobj h \<Longrightarrow> reachable (heap_of (Selector_element h this v))"
| reachable_id:
    "reachable h \<Longrightarrow> this < nobj h \<Longrightarrow> reachable (heap_of (Selector_id h this v))"
| reachable_class:
    "reachable h \<Longrightarrow> this < nobj h \<Longrightarrow> reachable (heap_of (Selector_class h this v))"
| reachable_attr:
    "reachable h \<Longrightarrow> this < nobj h \<Longrightarrow> reachable (heap_of (Selector_attr h this v))"
| reachable_pseudoClass:
    "reachable h \<Longrightarrow> this < nobj h \<Longrightarrow> reachable (heap_of (Selector_pseudoClass h this v))"
| reachable_pseudoElement:
    "reachable h \<Longrightarrow> this < nobj h \<Longrightarrow> reachable (heap_of (Selector_pseudoElement h this v))"
| reachable_combine:
    "reachable h \<Longrightarrow> this < nobj h \<Longrightarrow> selector1 < nobj h \<Longrightarrow> right < nobj h
     \<Longrightarrow> reachable (heap_of (Selector_combine h this selector1 symbol right))"


text \<open>
  The references an object holds lead to arrays and to an object that exist in the
  store.
\<close>

definition refs_exist :: "heap \<Rightarrow> Selector \<Rightarrow> bool" where
  "refs_exist h ob =
     (classes ob < narr h \<and> attributes ob < narr h \<and> pseudoClasses ob < narr h
      \<and> (case selector2 ob of None \<Rightarrow> True | Some b \<Rightarrow> b < nobj h))"

text \<open>
  What every object of a reachable store satisfies: a value that tests true has been
  stored by a call that left the cursor at its rank or later.
\<close>

definition order_inv :: "Selector \<Rightarrow> bool" where
  "order_inv ob =
     (0 \<le> index_of_selector ob
      \<and> (truthy (id_val ob) \<longrightarrow> 1 \<le> index_of_selector ob)
      \<and> (truthy (pseudoElement_val ob) \<longrightarrow> 5 \<le> index_of_selector ob))"

section \<open>Facts about the calls\<close>

lemmas call_defs =
  Selector_element_def Selector_id_def Selector_class_def Selector_attr_def
  Selector_pseudoClass_def Selector_pseudoElement_def Selector_combine_def
  check_order_def set_obj_def push_def

lemmas facade_defs =
  cssSelectorBuilder_element_def cssSelectorBuilder_id_def cssSelectorBuilder_class_def
  cssSelectorBuilder_attr_def cssSelectorBuilder_pseudoClass_def
  cssSelectorBuilder_pseudoElement_def cssSelectorBuilder_combine_def new_Selector_def

lemmas run_defs =
  call_defs facade_defs then_call_def combine_of_def stringify_of_def truthy_def
  stringify_own_def returns_def throws_def heap_of_def

subsection \<open>The ordering check\<close>

lemma rank_simps:
  "indexOf selectors ''element'' = 0"
  "indexOf selectors ''id'' = 1"
  "indexOf selectors ''class'' = 2"
  "indexOf selectors ''attr'' = 3"
  "indexOf selectors ''pseudoClass'' = 4"
  "indexOf selectors ''pseudoElement'' = 5"
  "indexOf selectors ''combine'' = 6"
  by (simp_all add: selectors_def)

lemma ranks_list: "map (indexOf selectors) selectors = [0, 1, 2, 3, 4, 5, 6]"
  by (simp add: selectors_def)

lemma new_Selector_cursor:
  "index_of_selector (objs (snd (new_Selector h)) (fst (new_Selector h))) = 0"
  by (simp add: new_Selector_def)

lemma check_order_throws:
  "throws (check_order h this k) e =
     (e = OrderViolationError \<and> indexOf selectors k < index_of_selector (objs h this))"
  by (auto simp: check_order_def throws_def)

lemma check_order_passes:
  "\<not> indexOf selectors k < index_of_selector (objs h this) \<Longrightarrow>
   returns (check_order h this k)
   \<and> heap_of (check_order h this k) =
       set_obj h this ((objs h this)\<lparr>index_of_selector := indexOf selectors k\<rparr>)"
  by (simp add: check_order_def returns_def heap_of_def)

lemma check_order_cursor:
  "\<not> indexOf selectors k < index_of_selector (objs h this) \<Longrightarrow>
   index_of_selector (objs (heap_of (check_order h this k)) this) = indexOf selectors k"
  by (simp add: check_order_def heap_of_def set_obj_def)

lemma element_order:
  "throws (Selector_element h this v) OrderViolationError = (0 < index_of_selector (objs h this))"
  "\<not> 0 < index_of_selector (objs h this) \<Longrightarrow>
     index_of_selector (objs (heap_of (Selector_element h this v)) this) = 0"
  by (simp_all add: Selector_element_def check_order_def rank_simps throws_def heap_of_def
      set_obj_def)

lemma id_order:
  "throws (Selector_id h this v) OrderViolationError = (1 < index_of_selector (objs h this))"
  "\<not> 1 < index_of_selector (objs h this) \<Longrightarrow>
     index_of_selector (objs (heap_of (Selector_id h this v)) this) = 1"
  by (simp_all add: Selector_id_def check_order_def rank_simps throws_def heap_of_def
      set_obj_def)

lemma class_order:
  "throws (Selector_class h this v) OrderViolationError = (2 < index_of_selector (objs h this))"
  "\<not> 2 < index_of_selector (objs h this) \<Longrightarrow>
     returns (Selector_class h this v) \<and>
     index_of_selector (objs (heap_of (Selector_class h this v)) this) = 2"
  by (simp_all add: Selector_class_def check_order_def rank_simps throws_def heap_of_def
      set_obj_def push_def returns_def)

lemma attr_order:
  "throws (Selector_attr h this v) OrderViolationError = (3 < index_of_selector (objs h this))"
  "\<not> 3 < index_of_selector (objs h this) \<Longrightarrow>
     returns (Selector_attr h this v) \<and>
     index_of_selector (objs (heap_of (Selector_attr h this v)) this) = 3"
  by (simp_all add: Selector_attr_def check_order_def rank_simps throws_def heap_of_def
      set_obj_def push_def returns_def)

lemma pseudoClass_order:
  "throws (Selector_pseudoClass h this v) OrderViolationError
     = (4 < index_of_selector (objs h this))"
  "\<not> 4 < index_of_selector (objs h this) \<Longrightarrow>
     returns (Selector_pseudoClass h this v) \<and>
     index_of_selector (objs (heap_of (Selector_pseudoClass h this v)) this) = 4"
  by (simp_all add: Selector_pseudoClass_def check_order_def rank_simps throws_def heap_of_def
      set_obj_def push_def returns_def)

lemma pseudoElement_order:
  "throws (Selector_pseudoElement h this v) OrderViolationError
     = (5 < index_of_selector (objs h this))"
  "\<not> 5 < index_of_selector (objs h this) \<Longrightarrow>
     index_of_selector (objs (heap_of (Selector_pseudoElement h this v)) this) = 5"
  by (simp_all add: Selector_pseudoElement_def check_order_def rank_simps throws_def
      heap_of_def set_obj_def)

lemma setter_returns:
  "\<not> 0 < index_of_selector (objs h this) \<Longrightarrow>
     returns (Selector_element h this v) = (\<not> truthy (element_val (objs h this)))"
  "\<not> 1 < index_of_selector (objs h this) \<Longrightarrow>
     returns (Selector_id h this v) = (\<not> truthy (id_val (objs h this)))"
  "\<not> 5 < index_of_selector (objs h this) \<Longrightarrow>
     returns (Selector_pseudoElement h this v) = (\<not> truthy (pseudoElement_val (objs h this)))"
  by (simp_all add: Selector_element_def Selector_id_def Selector_pseudoElement_def
      check_order_def rank_simps returns_def set_obj_def)

lemma class_after_attr:
  "returns (Selector_attr h this v) \<Longrightarrow>
   throws (then_call (Selector_attr h this v) (\<lambda>h' a. Selector_class h' a w))
     OrderViolationError"
  by (auto simp: Selector_attr_def Selector_class_def check_order_def rank_simps throws_def
      returns_def then_call_def set_obj_def push_def split: if_splits)

lemma combine_order:
  "throws (Selector_combine h this selector1 symbol right) OrderViolationError
     = (6 < index_of_selector (objs h this))"
  "\<not> 6 < index_of_selector (objs h this) \<Longrightarrow>
     returns (Selector_combine h this selector1 symbol right)"
  by (simp_all add: Selector_combine_def check_order_def rank_simps throws_def returns_def
      Let_def)

text \<open>
  Claim C2 as stated fails where it says that a call whose kind passes the ordering
  check succeeds with the cursor at the rank of the kind. After \<open>id('main')\<close> the cursor
  is 1, the rank of id; \<open>id('data')\<close> passes the check and then throws the duplicate
  error. And \<open>combine\<close>, of rank 6, returns with the cursor of its left operand: 1
  after \<open>combine(element('div').id('main'), '+', element('table').id('data'))\<close>.
\<close>

theorem order_check_counterexample:
  "index_of_selector (objs (heap_of (cssSelectorBuilder_id empty_heap ''main'')) 0) = 1
   \<and> indexOf selectors ''id'' = 1
   \<and> \<not> throws (Selector_id (heap_of (cssSelectorBuilder_id empty_heap ''main'')) 0 ''data'')
         OrderViolationError
   \<and> \<not> returns (Selector_id (heap_of (cssSelectorBuilder_id empty_heap ''main'')) 0 ''data'')
   \<and> throws (Selector_id (heap_of (cssSelectorBuilder_id empty_heap ''main'')) 0 ''data'')
       DuplicateFragmentError
   \<and> returns example_plus
   \<and> indexOf selectors ''combine'' = 6
   \<and> index_of_selector (objs (heap_of example_plus) 2) = 1"
  by (simp add: run_defs rank_simps example_plus_def empty_heap_def blank_def)

text \<open>
  Claim C2, amended. The kinds have the ranks 0 to 6 in the order element, id, class,
  attr, pseudoClass, pseudoElement, combine, and a new object has the cursor 0. The
  ordering check for a kind throws the ordering error exactly when the cursor of the
  receiver is greater than the rank of the kind, and otherwise returns with the cursor
  at that rank. Each of the six fragment calls, and \<open>combine\<close>, throws the ordering
  error exactly when the cursor is greater than the rank of its kind. When it is not,
  \<open>combine\<close> returns; after a fragment call the cursor is at the rank of its kind, so a
  further call of the same kind passes the check; \<open>class\<close>, \<open>attr\<close> and \<open>pseudoClass\<close>
  return, and \<open>element\<close>, \<open>id\<close> and \<open>pseudoElement\<close> return exactly when their field
  does not test true. A call of \<open>class\<close> on the object a call of \<open>attr\<close> has returned
  throws the ordering error.
\<close>

theorem order_check:
  "map (indexOf selectors) selectors = [0, 1, 2, 3, 4, 5, 6]
   \<and> index_of_selector (objs (snd (new_Selector h)) (fst (new_Selector h))) = 0
   \<and> throws (check_order h this k) OrderViolationError
       = (indexOf selectors k < index_of_selector (objs h this))
   \<and> (\<not> indexOf selectors k < index_of_selector (objs h this) \<longrightarrow>
        returns (check_order h this k)
        \<and> index_of_selector (objs (heap_of (check_order h this k)) this) = indexOf selectors k)
   \<and> throws (Selector_element h this v) OrderViolationError
       = (0 < index_of_selector (objs h this))
   \<and> throws (Selector_id h this v) OrderViolationError
       = (1 < index_of_selector (objs h this))
   \<and> throws (Selector_class h this v) OrderViolationError
       = (2 < index_of_selector (objs h this))
   \<and> throws (Selector_attr h this v) OrderViolationError
       = (3 < index_of_selector (objs h this))
   \<and> throws (Selector_pseudoClass h this v) OrderViolationError
       = (4 < index_of_selector (objs h this))
   \<and> throws (Selector_pseudoElement h this v) OrderViolationError
       = (5 < index_of_selector (objs h this))
   \<and> (\<not> 0 < index_of_selector (objs h this) \<longrightarrow>
        index_of_selector (objs (heap_of (Selector_element h this v)) this) = 0
        \<and> returns (Selector_element h this v) = (\<not> truthy (element_val (objs h this)))
        \<and> \<not> throws (Selector_element (heap_of (Selector_element h this v)) this w)
              OrderViolationError)
   \<and> (\<not> 1 < index_of_selector (objs h this) \<longrightarrow>
        index_of_selector (objs (heap_of (Selector_id h this v)) this) = 1
        \<and> returns (Selector_id h this v) = (\<not> truthy (id_val (objs h this)))
        \<and> \<not> throws (Selector_id (heap_of (Selector_id h this v)) this w)
              OrderViolationError)
   \<and> (\<not> 2 < index_of_selector (objs h this) \<longrightarrow>
        returns (Selector_class h this v)
        \<and> index_of_selector (objs (heap_of (Selector_class h this v)) this) = 2
        \<and> returns (Selector_class (heap_of (Selector_class h this v)) this w))
   \<and> (\<not> 3 < index_of_selector (objs h this) \<longrightarrow>
        returns (Selector_attr h this v)
        \<and> index_of_selector (objs (heap_of (Selector_attr h this v)) this) = 3
        \<and> returns (Selector_attr (heap_of (Selector_attr h this v)) this w))
   \<and> (\<not> 4 < index_of_selector (objs h this) \<longrightarrow>
        returns (Selector_pseudoClass h this v)
        \<and> index_of_selector (objs (heap_of (Selector_pseudoClass h this v)) this) = 4
        \<and> returns (Selector_pseudoClass (heap_of (Selector_pseudoClass h this v)) this w))
   \<and> (\<not> 5 < index_of_selector (objs h this) \<longrightarrow>
        index_of_selector (objs (heap_of (Selector_pseudoElement h this v)) this) = 5
        \<and> returns (Selector_pseudoElement h this v)
            = (\<not> truthy (pseudoElement_val (objs h this)))
        \<and> \<not> throws (Selector_pseudoElement (heap_of (Selector_pseudoElement h this v)) this w)
              OrderViolationError)
   \<and> (returns (Selector_attr h this v) \<longrightarrow>
        throws (then_call (Selector_attr h this v) (\<lambda>h' a. Selector_class h' a w))
          OrderViolationError)
   \<and> throws (Selector_combine h this selector1 symbol right) OrderViolationError
       = (6 < index_of_selector (objs h this))
   \<and> (\<not> 6 < index_of_selector (objs h this) \<longrightarrow>
        returns (Selector_combine h this selector1 symbol right))"
proof -
  have chk: "throws (check_order h this k) OrderViolationError
       = (indexOf selectors k < index_of_selector (objs h this))"
    by (simp add: check_order_throws)
  have pass: "\<not> indexOf selectors k < index_of_selector (objs h this) \<longrightarrow>
        returns (check_order h this k)
        \<and> index_of_selector (objs (heap_of (check_order h this k)) this) = indexOf selectors k"
    using check_order_passes [of k h this] check_order_cursor [of k h this] by blast
  have e: "\<not> 0 < index_of_selector (objs h this) \<longrightarrow>
        index_of_selector (objs (heap_of (Selector_element h this v)) this) = 0
        \<and> returns (Selector_element h this v) = (\<not> truthy (element_val (objs h this)))
        \<and> \<not> throws (Selector_element (heap_of (Selector_element h this v)) this w)
              OrderViolationError"
    by (simp add: element_order setter_returns)
  have i: "\<not> 1 < index_of_selector (objs h this) \<longrightarrow>
        index_of_selector (objs (heap_of (Selector_id h this v)) this) = 1
        \<and> returns (Selector_id h this v) = (\<not> truthy (id_val (objs h this)))
        \<and> \<not> throws (Selector_id (heap_of (Selector_id h this v)) this w)
              OrderViolationError"
    by (simp add: id_order setter_returns)
  have c: "\<not> 2 < index_of_selector (objs h this) \<longrightarrow>
        returns (Selector_class h this v)
        \<and> index_of_selector (objs (heap_of (Selector_class h this v)) this) = 2
        \<and> returns (Selector_class (heap_of (Selector_class h this v)) this w)"
    by (simp add: class_order)
  have a: "\<not> 3 < index_of_selector (objs h this) \<longrightarrow>
        returns (Selector_attr h this v)
        \<and> index_of_selector (objs (heap_of (Selector_attr h this v)) this) = 3
        \<and> returns (Selector_attr (heap_of (Selector_attr h this v)) this w)"
    by (simp add: attr_order)
  have p: "\<not> 4 < index_of_selector (objs h this) \<longrightarrow>
        returns (Selector_pseudoClass h this v)
        \<and> index_of_selector (objs (heap_of (Selector_pseudoClass h this v)) this) = 4
        \<and> returns (Selector_pseudoClass (heap_of (Selector_pseudoClass h this v)) this w)"
    by (simp add: pseudoClass_order)
  have q: "\<not> 5 < index_of_selector (objs h this) \<longrightarrow>
        index_of_selector (objs (heap_of (Selector_pseudoElement h this v)) this) = 5
        \<and> returns (Selector_pseudoElement h this v)
            = (\<not> truthy (pseudoElement_val (objs h this)))
        \<and> \<not> throws (Selector_pseudoElement (heap_of (Selector_pseudoElement h this v)) this w)
              OrderViolationError"
    by (simp add: pseudoElement_order setter_returns)
  have ca: "returns (Selector_attr h this v) \<longrightarrow>
        throws (then_call (Selector_attr h this v) (\<lambda>h' a. Selector_class h' a w))
          OrderViolationError"
    by (simp add: class_after_attr)
  have cb: "throws (Selector_combine h this selector1 symbol right) OrderViolationError
       = (6 < index_of_selector (objs h this))"
    by (rule combine_order(1))
  have cr: "\<not> 6 < index_of_selector (objs h this) \<longrightarrow>
        returns (Selector_combine h this selector1 symbol right)"
    by (simp add: combine_order(2))
  show ?thesis
    using ranks_list new_Selector_cursor [of h] chk pass
      element_order(1) [of h this v] id_order(1) [of h this v] class_order(1) [of h this v]
      attr_order(1) [of h this v] pseudoClass_order(1) [of h this v]
      pseudoElement_order(1) [of h this v] e i c a p q ca cb cr
    by blast
qed

theorem order_check_witness:
  "\<not> indexOf selectors ''element'' < index_of_selector (objs (snd (new_Selector empty_heap)) 0)
   \<and> returns (check_order (snd (new_Selector empty_heap)) 0 ''element'')
   \<and> returns (Selector_attr (snd (new_Selector empty_heap)) 0 ''href'')
   \<and> throws (then_call (Selector_attr (snd (new_Selector empty_heap)) 0 ''href'')
               (\<lambda>h' a. Selector_class h' a ''container'')) OrderViolationError
   \<and> index_of_selector
        (objs (heap_of (Selector_pseudoElement (snd (new_Selector empty_heap)) 0 ''after'')) 0)
       = 5
   \<and> \<not> 6 < index_of_selector (objs (snd (new_Selector empty_heap)) 0)
   \<and> returns (Selector_combine (snd (new_Selector empty_heap)) 0 0 ''+'' 0)"
  using order_check [of "snd (new_Selector empty_heap)" 0 "''element''" "''href''"
      "''container''" 0 "''+''" 0]
    order_check [of "snd (new_Selector empty_heap)" 0 "''element''" "''after''" "''before''"
      0 "''+''" 0]
  by (simp add: new_Selector_def empty_heap_def blank_def rank_simps)

subsection \<open>The examples of the facade\<close>

text \<open>
  Claim C9. In any store, \<open>element('a').attr('href$=".png"').pseudoClass('focus')\<close>
  renders as \<open>a[href$=".png"]:focus\<close> and \<open>id('main').class('container').class('editable')\<close>
  renders as \<open>#main.container.editable\<close>; the object each chain works on is the one the
  facade has just created, at the first unused address.
\<close>

theorem facade_examples:
  \<open>stringify_of
     (then_call
       (then_call (cssSelectorBuilder_element h ''a'')
         (\<lambda>h a. Selector_attr h a ''href$=".png"''))
       (\<lambda>h a. Selector_pseudoClass h a ''focus''))
     = Some ''a[href$=".png"]:focus''
   \<and> stringify_of
       (then_call
         (then_call (cssSelectorBuilder_id h ''main'')
           (\<lambda>h a. Selector_class h a ''container''))
         (\<lambda>h a. Selector_class h a ''editable''))
     = Some ''#main.container.editable''
   \<and> fst (new_Selector h) = nobj h
   \<and> nobj (snd (new_Selector h)) = nobj h + 1
   \<and> objs (snd (new_Selector h)) (nobj h)
     = \<lparr>index_of_selector = 0, element_val = None, id_val = None,
        classes = narr h, attributes = narr h + 1, pseudoClasses = narr h + 2,
        pseudoElement_val = None, combinator = None, selector2 = None\<rparr>
   \<and> arrs (snd (new_Selector h)) (narr h) = []
   \<and> arrs (snd (new_Selector h)) (narr h + 1) = []
   \<and> arrs (snd (new_Selector h)) (narr h + 2) = []\<close>
  by (simp add: run_defs rank_simps Selector_stringify.simps)

subsection \<open>Reachable stores and failed calls\<close>

lemma order_inv_new: "order_inv (objs (snd (new_Selector h)) (nobj h))"
  by (simp add: new_Selector_def order_inv_def truthy_def)

lemma objs_new_other: "a \<noteq> nobj h \<Longrightarrow> objs (snd (new_Selector h)) a = objs h a"
  by (simp add: new_Selector_def)

lemma nobj_new: "nobj (snd (new_Selector h)) = nobj h + 1"
  by (simp add: new_Selector_def)

lemma nobj_calls:
  "nobj (heap_of (Selector_element h this v)) = nobj h"
  "nobj (heap_of (Selector_id h this v)) = nobj h"
  "nobj (heap_of (Selector_class h this v)) = nobj h"
  "nobj (heap_of (Selector_attr h this v)) = nobj h"
  "nobj (heap_of (Selector_pseudoClass h this v)) = nobj h"
  "nobj (heap_of (Selector_pseudoElement h this v)) = nobj h"
  "nobj (heap_of (Selector_combine h this selector1 symbol right)) = nobj h"
  by (simp_all add: call_defs heap_of_def Let_def)

lemma order_inv_element:
  "order_inv (objs h a) \<Longrightarrow> order_inv (objs (heap_of (Selector_element h this v)) a)"
  by (auto simp: call_defs heap_of_def order_inv_def rank_simps)

lemma order_inv_id:
  "order_inv (objs h a) \<Longrightarrow> order_inv (objs (heap_of (Selector_id h this v)) a)"
  by (auto simp: call_defs heap_of_def order_inv_def rank_simps)

lemma order_inv_class:
  "order_inv (objs h a) \<Longrightarrow> order_inv (objs (heap_of (Selector_class h this v)) a)"
  by (auto simp: call_defs heap_of_def order_inv_def rank_simps)

lemma order_inv_attr:
  "order_inv (objs h a) \<Longrightarrow> order_inv (objs (heap_of (Selector_attr h this v)) a)"
  by (auto simp: call_defs heap_of_def order_inv_def rank_simps)

lemma order_inv_pseudoClass:
  "order_inv (objs h a) \<Longrightarrow> order_inv (objs (heap_of (Selector_pseudoClass h this v)) a)"
  by (auto simp: call_defs heap_of_def order_inv_def rank_simps)

lemma order_inv_pseudoElement:
  "order_inv (objs h a) \<Longrightarrow> order_inv (objs (heap_of (Selector_pseudoElement h this v)) a)"
  by (auto simp: call_defs heap_of_def order_inv_def rank_simps)

lemma order_inv_combine:
  "order_inv (objs h a) \<Longrightarrow> order_inv (objs h selector1) \<Longrightarrow>
   order_inv (objs (heap_of (Selector_combine h this selector1 symbol right)) a)"
  by (auto simp: call_defs heap_of_def order_inv_def rank_simps Let_def)

lemma reachable_order_inv: "reachable h \<Longrightarrow> a < nobj h \<Longrightarrow> order_inv (objs h a)"
proof (induction arbitrary: a rule: reachable.induct)
  case reachable_empty
  then show ?case by (simp add: empty_heap_def)
next
  case (reachable_new h)
  show ?case
  proof (cases "a = nobj h")
    case True
    then show ?thesis by (simp add: order_inv_new)
  next
    case False
    with reachable_new.prems have "a < nobj h" by (simp add: nobj_new)
    with reachable_new.IH False show ?thesis by (simp add: objs_new_other)
  qed
next
  case (reachable_combine h this selector1 right symbol)
  then show ?case by (simp add: nobj_calls order_inv_combine)
qed (simp_all add: nobj_calls order_inv_element order_inv_id order_inv_class order_inv_attr
      order_inv_pseudoClass order_inv_pseudoElement)

lemma set_obj_same: "set_obj h a (objs h a) = h"
  by (simp add: set_obj_def)

lemma cursor_rewrite:
  assumes "index_of_selector (objs h this) = n"
  shows "h\<lparr>objs := (objs h)(this := (objs h this)\<lparr>index_of_selector := n\<rparr>)\<rparr> = h"
proof -
  have "(objs h this)\<lparr>index_of_selector := index_of_selector (objs h this)\<rparr> = objs h this"
    by simp
  with assms have "(objs h this)\<lparr>index_of_selector := n\<rparr> = objs h this"
    by simp
  then show ?thesis by simp
qed

lemma failed_element:
  "0 \<le> index_of_selector (objs h this) \<Longrightarrow> \<not> returns (Selector_element h this v) \<Longrightarrow>
   heap_of (Selector_element h this v) = h"
  by (auto simp: call_defs heap_of_def returns_def rank_simps cursor_rewrite split: if_splits)

lemma failed_id:
  "order_inv (objs h this) \<Longrightarrow> \<not> returns (Selector_id h this v) \<Longrightarrow>
   heap_of (Selector_id h this v) = h"
  by (auto simp: call_defs heap_of_def returns_def rank_simps order_inv_def cursor_rewrite
      split: if_splits)

lemma failed_pseudoElement:
  "order_inv (objs h this) \<Longrightarrow> \<not> returns (Selector_pseudoElement h this v) \<Longrightarrow>
   heap_of (Selector_pseudoElement h this v) = h"
  by (auto simp: call_defs heap_of_def returns_def rank_simps order_inv_def cursor_rewrite
      split: if_splits)

lemma failed_push:
  "\<not> returns (Selector_class h this v) \<Longrightarrow> heap_of (Selector_class h this v) = h"
  "\<not> returns (Selector_attr h this v) \<Longrightarrow> heap_of (Selector_attr h this v) = h"
  "\<not> returns (Selector_pseudoClass h this v) \<Longrightarrow> heap_of (Selector_pseudoClass h this v) = h"
  by (auto simp: call_defs heap_of_def returns_def split: if_splits)

text \<open>
  Claim C10. In a store that calls of the constructor and the methods have produced,
  a fragment call on an existing object that does not return leaves the whole store as
  it was before the call: every field of the receiver, the cursor among them, every
  array and every other object.
\<close>

theorem error_atomicity:
  assumes "reachable h" and "this < nobj h"
  shows "(\<not> returns (Selector_element h this v) \<longrightarrow> heap_of (Selector_element h this v) = h)
    \<and> (\<not> returns (Selector_id h this v) \<longrightarrow> heap_of (Selector_id h this v) = h)
    \<and> (\<not> returns (Selector_class h this v) \<longrightarrow> heap_of (Selector_class h this v) = h)
    \<and> (\<not> returns (Selector_attr h this v) \<longrightarrow> heap_of (Selector_attr h this v) = h)
    \<and> (\<not> returns (Selector_pseudoClass h this v) \<longrightarrow>
         heap_of (Selector_pseudoClass h this v) = h)
    \<and> (\<not> returns (Selector_pseudoElement h this v) \<longrightarrow>
         heap_of (Selector_pseudoElement h this v) = h)"
proof -
  from assms have inv: "order_inv (objs h this)"
    by (rule reachable_order_inv)
  then have "0 \<le> index_of_selector (objs h this)"
    by (simp add: order_inv_def)
  then show ?thesis
    using inv failed_element [of h this v] failed_id [of h this v]
      failed_pseudoElement [of h this v] failed_push [of h this v]
    by blast
qed

theorem error_atomicity_witness:
  "reachable (heap_of (cssSelectorBuilder_id empty_heap ''main''))
   \<and> 0 < nobj (heap_of (cssSelectorBuilder_id empty_heap ''main''))
   \<and> throws (Selector_id (heap_of (cssSelectorBuilder_id empty_heap ''main'')) 0 ''data'')
       DuplicateFragmentError
   \<and> heap_of (Selector_id (heap_of (cssSelectorBuilder_id empty_heap ''main'')) 0 ''data'')
       = heap_of (cssSelectorBuilder_id empty_heap ''main'')
   \<and> throws (Selector_element (heap_of (cssSelectorBuilder_id empty_heap ''main'')) 0 ''div'')
       OrderViolationError
   \<and> heap_of (Selector_element (heap_of (cssSelectorBuilder_id empty_heap ''main'')) 0 ''div'')
       = heap_of (cssSelectorBuilder_id empty_heap ''main'')"
proof -
  let ?H = "heap_of (cssSelectorBuilder_id empty_heap ''main'')"
  have "fst (new_Selector empty_heap) < nobj (snd (new_Selector empty_heap))"
    by (simp add: new_Selector_def)
  then have "reachable (heap_of (Selector_id (snd (new_Selector empty_heap))
                (fst (new_Selector empty_heap)) ''main''))"
    by (intro reachable_id reachable_new reachable_empty)
  then have r: "reachable ?H"
    by (simp add: cssSelectorBuilder_id_def case_prod_beta)
  have n: "0 < nobj ?H"
    by (simp add: cssSelectorBuilder_id_def new_Selector_def nobj_calls)
  have d: "throws (Selector_id ?H 0 ''data'') DuplicateFragmentError"
    by (simp add: run_defs rank_simps empty_heap_def blank_def)
  have o: "throws (Selector_element ?H 0 ''div'') OrderViolationError"
    by (simp add: run_defs rank_simps empty_heap_def blank_def)
  from d have d': "\<not> returns (Selector_id ?H 0 ''data'')"
    by (auto simp: throws_def returns_def split: sum.splits)
  from o have o': "\<not> returns (Selector_element ?H 0 ''div'')"
    by (auto simp: throws_def returns_def split: sum.splits)
  from error_atomicity [OF r n, of "''data''"] d'
  have "heap_of (Selector_id ?H 0 ''data'') = ?H" by blast
  moreover from error_atomicity [OF r n, of "''div''"] o'
  have "heap_of (Selector_element ?H 0 ''div'') = ?H" by blast
  ultimately show ?thesis using r n d o by blast
qed

subsection \<open>Element, id and pseudo-element a second time\<close>

lemma element_again:
  assumes "truthy (element_val (objs h this))"
  shows "\<not> returns (Selector_element h this v)"
    and "element_val (objs (heap_of (Selector_element h this v)) this) = element_val (objs h this)"
    and "throws (Selector_element h this v) DuplicateFragmentError
           = (index_of_selector (objs h this) \<le> 0)"
  using assms
  by (auto simp: call_defs returns_def throws_def heap_of_def rank_simps)

lemma id_again:
  assumes "truthy (id_val (objs h this))"
  shows "\<not> returns (Selector_id h this v)"
    and "id_val (objs (heap_of (Selector_id h this v)) this) = id_val (objs h this)"
    and "throws (Selector_id h this v) DuplicateFragmentError
           = (index_of_selector (objs h this) \<le> 1)"
  using assms
  by (auto simp: call_defs returns_def throws_def heap_of_def rank_simps)

lemma pseudoElement_again:
  assumes "truthy (pseudoElement_val (objs h this))"
  shows "\<not> returns (Selector_pseudoElement h this v)"
    and "pseudoElement_val (objs (heap_of (Selector_pseudoElement h this v)) this)
           = pseudoElement_val (objs h this)"
    and "throws (Selector_pseudoElement h this v) DuplicateFragmentError
           = (index_of_selector (objs h this) \<le> 5)"
  using assms
  by (auto simp: call_defs returns_def throws_def heap_of_def rank_simps)

lemma first_time:
  "\<not> truthy (element_val (objs h this)) \<Longrightarrow> index_of_selector (objs h this) \<le> 0 \<Longrightarrow>
     returns (Selector_element h this v)
     \<and> element_val (objs (heap_of (Selector_element h this v)) this) = Some v"
  "\<not> truthy (id_val (objs h this)) \<Longrightarrow> index_of_selector (objs h this) \<le> 1 \<Longrightarrow>
     returns (Selector_id h this v)
     \<and> id_val (objs (heap_of (Selector_id h this v)) this) = Some v"
  "\<not> truthy (pseudoElement_val (objs h this)) \<Longrightarrow> index_of_selector (objs h this) \<le> 5 \<Longrightarrow>
     returns (Selector_pseudoElement h this v)
     \<and> pseudoElement_val (objs (heap_of (Selector_pseudoElement h this v)) this) = Some v"
  by (simp_all add: call_defs returns_def heap_of_def rank_simps)

lemma twice_in_a_row:
  assumes "v \<noteq> []"
  shows "returns (Selector_element h this v) \<longrightarrow>
           throws (Selector_element (heap_of (Selector_element h this v)) this w)
             DuplicateFragmentError"
    and "returns (Selector_id h this v) \<longrightarrow>
           throws (Selector_id (heap_of (Selector_id h this v)) this w) DuplicateFragmentError"
    and "returns (Selector_pseudoElement h this v) \<longrightarrow>
           throws (Selector_pseudoElement (heap_of (Selector_pseudoElement h this v)) this w)
             DuplicateFragmentError"
  using assms
  by (auto simp: call_defs returns_def throws_def heap_of_def rank_simps truthy_def
      split: if_splits)

text \<open>
  Claim C3 as stated fails twice. A first value \<open>''\<close> tests false, so a second call
  returns and replaces it; and the ordering check runs before the test of the field,
  so a second \<open>id\<close> after a \<open>class\<close> throws the ordering error, not the duplicate
  error.
\<close>

theorem duplicate_counterexample:
  "returns (then_call (cssSelectorBuilder_element empty_heap [])
             (\<lambda>h a. Selector_element h a ''div''))
   \<and> stringify_of (then_call (cssSelectorBuilder_element empty_heap [])
                    (\<lambda>h a. Selector_element h a ''div'')) = Some ''div''
   \<and> throws (then_call (then_call (cssSelectorBuilder_id empty_heap ''a'')
                         (\<lambda>h a. Selector_class h a ''b''))
               (\<lambda>h a. Selector_id h a ''c'')) OrderViolationError
   \<and> \<not> throws (then_call (then_call (cssSelectorBuilder_id empty_heap ''a'')
                         (\<lambda>h a. Selector_class h a ''b''))
               (\<lambda>h a. Selector_id h a ''c'')) DuplicateFragmentError"
  by (simp add: run_defs rank_simps empty_heap_def blank_def Selector_stringify.simps)

text \<open>
  Claim C3, amended. When the field holds a non-empty string, a call of \<open>element\<close>,
  \<open>id\<close> or \<open>pseudoElement\<close> never returns and leaves the field as it is; it throws the
  duplicate error when the cursor is at most the rank of the kind, and the ordering
  error otherwise. A call that has returned after storing a non-empty value is
  followed by the duplicate error when the same call is made next. When the field
  holds \<open>null\<close> or the empty string and the cursor is at most the rank of the kind, the
  call returns and the field holds the new value.
\<close>

theorem duplicate_fragment:
  "(truthy (element_val (objs h this)) \<longrightarrow>
      \<not> returns (Selector_element h this v)
      \<and> element_val (objs (heap_of (Selector_element h this v)) this)
          = element_val (objs h this)
      \<and> throws (Selector_element h this v) DuplicateFragmentError
          = (index_of_selector (objs h this) \<le> 0)
      \<and> throws (Selector_element h this v) OrderViolationError
          = (0 < index_of_selector (objs h this)))
   \<and> (truthy (id_val (objs h this)) \<longrightarrow>
      \<not> returns (Selector_id h this v)
      \<and> id_val (objs (heap_of (Selector_id h this v)) this) = id_val (objs h this)
      \<and> throws (Selector_id h this v) DuplicateFragmentError
          = (index_of_selector (objs h this) \<le> 1)
      \<and> throws (Selector_id h this v) OrderViolationError
          = (1 < index_of_selector (objs h this)))
   \<and> (truthy (pseudoElement_val (objs h this)) \<longrightarrow>
      \<not> returns (Selector_pseudoElement h this v)
      \<and> pseudoElement_val (objs (heap_of (Selector_pseudoElement h this v)) this)
          = pseudoElement_val (objs h this)
      \<and> throws (Selector_pseudoElement h this v) DuplicateFragmentError
          = (index_of_selector (objs h this) \<le> 5)
      \<and> throws (Selector_pseudoElement h this v) OrderViolationError
          = (5 < index_of_selector (objs h this)))
   \<and> (v \<noteq> [] \<and> returns (Selector_element h this v) \<longrightarrow>
        throws (Selector_element (heap_of (Selector_element h this v)) this w)
          DuplicateFragmentError)
   \<and> (v \<noteq> [] \<and> returns (Selector_id h this v) \<longrightarrow>
        throws (Selector_id (heap_of (Selector_id h this v)) this w) DuplicateFragmentError)
   \<and> (v \<noteq> [] \<and> returns (Selector_pseudoElement h this v) \<longrightarrow>
        throws (Selector_pseudoElement (heap_of (Selector_pseudoElement h this v)) this w)
          DuplicateFragmentError)
   \<and> (\<not> truthy (element_val (objs h this)) \<and> index_of_selector (objs h this) \<le> 0 \<longrightarrow>
        returns (Selector_element h this v)
        \<and> element_val (objs (heap_of (Selector_element h this v)) this) = Some v)
   \<and> (\<not> truthy (id_val (objs h this)) \<and> index_of_selector (objs h this) \<le> 1 \<longrightarrow>
        returns (Selector_id h this v)
        \<and> id_val (objs (heap_of (Selector_id h this v)) this) = Some v)
   \<and> (\<not> truthy (pseudoElement_val (objs h this)) \<and> index_of_selector (objs h this) \<le> 5 \<longrightarrow>
        returns (Selector_pseudoElement h this v)
        \<and> pseudoElement_val (objs (heap_of (Selector_pseudoElement h this v)) this) = Some v)"
  using twice_in_a_row [of v h this w]
  by (simp add: element_again id_again pseudoElement_again element_order(1) id_order(1)
      pseudoElement_order(1) first_time)

theorem duplicate_fragment_witness:
  "truthy (id_val (objs (heap_of (cssSelectorBuilder_id empty_heap ''main'')) 0))
   \<and> throws (Selector_id (heap_of (cssSelectorBuilder_id empty_heap ''main'')) 0 ''data'')
       DuplicateFragmentError
   \<and> id_val (objs (heap_of (Selector_id (heap_of (cssSelectorBuilder_id empty_heap ''main''))
                    0 ''data'')) 0) = Some ''main''
   \<and> ''after'' \<noteq> []
   \<and> returns (Selector_pseudoElement (snd (new_Selector empty_heap)) 0 ''after'')
   \<and> throws (Selector_pseudoElement
               (heap_of (Selector_pseudoElement (snd (new_Selector empty_heap)) 0 ''after''))
               0 ''before'') DuplicateFragmentError"
  using duplicate_fragment [of "heap_of (cssSelectorBuilder_id empty_heap ''main'')" 0
      "''data''" "''x''"]
    duplicate_fragment [of "snd (new_Selector empty_heap)" 0 "''after''" "''before''"]
  by (simp add: run_defs rank_simps empty_heap_def blank_def)

subsection \<open>Rendering\<close>

lemma fold_prefixed:
  "fold (\<lambda>v r. r @ x # v) xs acc = acc @ concat (map ((#) x) xs)"
  by (induction xs arbitrary: acc) simp_all

lemma fold_bracketed:
  "fold (\<lambda>v r. r @ x # v @ [y]) xs acc = acc @ concat (map (\<lambda>a. x # a @ [y]) xs)"
  by (induction xs arbitrary: acc) simp_all

lemma stringify_own_concat:
  "stringify_own h ob =
     (if truthy (element_val ob) then the (element_val ob) else [])
     @ (if truthy (id_val ob) then ''#'' @ the (id_val ob) else [])
     @ concat (map (\<lambda>c. ''.'' @ c) (arrs h (classes ob)))
     @ concat (map (\<lambda>a. ''['' @ a @ '']'') (arrs h (attributes ob)))
     @ concat (map (\<lambda>p. '':'' @ p) (arrs h (pseudoClasses ob)))
     @ (if truthy (pseudoElement_val ob) then ''::'' @ the (pseudoElement_val ob) else [])"
  by (simp add: stringify_own_def Let_def fold_prefixed fold_bracketed)

lemma stringify_own_spec:
  "no_empty_value ob \<Longrightarrow> stringify_own h ob = render_own_spec h ob"
  unfolding stringify_own_concat render_own_spec_def
  by (cases "element_val ob"; cases "id_val ob"; cases "pseudoElement_val ob")
     (simp_all add: truthy_def no_empty_value_def)

lemma stringify_own_ignores:
  "stringify_own h (ob\<lparr>index_of_selector := n\<rparr>) = stringify_own h ob"
  "stringify_own h (ob\<lparr>combinator := c\<rparr>) = stringify_own h ob"
  "stringify_own h (ob\<lparr>selector2 := s\<rparr>) = stringify_own h ob"
  by (simp_all add: stringify_own_def Let_def)

lemma stringify_chained:
  "chained (objs h a) \<Longrightarrow>
   Selector_stringify h a =
     Option.bind (Selector_stringify h (the (selector2 (objs h a))))
       (\<lambda>s. Some (stringify_own h (objs h a) @ '' '' @ the (combinator (objs h a))
                    @ '' '' @ s))"
  by (subst Selector_stringify.simps) (simp add: chained_def)

lemma stringify_last:
  "\<not> chained (objs h a) \<Longrightarrow> Selector_stringify h a = Some (stringify_own h (objs h a))"
  by (subst Selector_stringify.simps) (auto simp: chained_def)

lemma on_chain_from_next:
  assumes "chained (objs h a)" and "selector2 (objs h a) = Some n" and "on_chain h n c"
  shows "on_chain h a c"
  using assms(3)
proof (induction rule: on_chain.induct)
  case on_chain_self
  show ?case by (rule on_chain.on_chain_next [OF on_chain.on_chain_self assms(1,2)])
next
  case (on_chain_next b c)
  then show ?case by (blast intro: on_chain.on_chain_next)
qed



lemma render_spec_chained:
  "combinator (objs h a) \<noteq> None \<Longrightarrow> selector2 (objs h a) \<noteq> None \<Longrightarrow>
   render_spec h a =
     Option.bind (render_spec h (the (selector2 (objs h a))))
       (\<lambda>s. Some (render_own_spec h (objs h a) @ '' '' @ the (combinator (objs h a))
                    @ '' '' @ s))"
  by (subst render_spec.simps) simp

lemma render_spec_last:
  "combinator (objs h a) = None \<or> selector2 (objs h a) = None \<Longrightarrow>
   render_spec h a = Some (render_own_spec h (objs h a))"
  by (subst render_spec.simps) auto

lemma chained_iff_set:
  "no_empty_value ob \<Longrightarrow> chained ob = (combinator ob \<noteq> None \<and> selector2 ob \<noteq> None)"
  by (cases "combinator ob") (simp_all add: chained_def truthy_def no_empty_value_def)

lemma stringify_to_spec:
  assumes "Selector_stringify h a = Some s"
    and "\<forall>b. on_chain h a b \<longrightarrow> no_empty_value (objs h b)"
  shows "render_spec h a = Some s"
proof -
  have "(\<forall>b. on_chain h a b \<longrightarrow> no_empty_value (objs h b)) \<longrightarrow> render_spec h a = Some s"
    apply (rule Selector_stringify.raw_induct
        [where P = "\<lambda>h a s. (\<forall>b. on_chain h a b \<longrightarrow> no_empty_value (objs h b))
                       \<longrightarrow> render_spec h a = Some s", OF _ assms(1)])
    subgoal premises prems for f h a s
    proof
      assume ne: "\<forall>b. on_chain h a b \<longrightarrow> no_empty_value (objs h b)"
      then have ne_a: "no_empty_value (objs h a)"
        by (simp add: on_chain_self)
      show "render_spec h a = Some s"
      proof (cases "chained (objs h a)")
        case False
        with prems(2) have "s = stringify_own h (objs h a)"
          by (auto simp: chained_def)
        moreover from False ne_a
        have "combinator (objs h a) = None \<or> selector2 (objs h a) = None"
          by (simp add: chained_iff_set)
        ultimately show ?thesis using ne_a
          by (simp add: render_spec_last stringify_own_spec)
      next
        case True
        then obtain n where n: "selector2 (objs h a) = Some n"
          by (auto simp: chained_def)
        with True prems(2) obtain t where t: "f h n = Some t"
          and s: "s = stringify_own h (objs h a) @ '' '' @ the (combinator (objs h a))
                       @ '' '' @ t"
          by (auto simp: chained_def split: bind_splits)
        from ne True n have "\<forall>b. on_chain h n b \<longrightarrow> no_empty_value (objs h b)"
          by (blast intro: on_chain_from_next)
        with prems(1) [OF t] have "render_spec h n = Some t" by blast
        moreover from True ne_a
        have "combinator (objs h a) \<noteq> None" "selector2 (objs h a) \<noteq> None"
          by (simp_all add: chained_iff_set)
        ultimately show ?thesis using n s ne_a
          by (simp add: render_spec_chained stringify_own_spec)
      qed
    qed
    done
  with assms(2) show ?thesis by blast
qed

lemma spec_to_stringify:
  assumes "render_spec h a = Some s"
    and "\<forall>b. on_chain h a b \<longrightarrow> no_empty_value (objs h b)"
  shows "Selector_stringify h a = Some s"
proof -
  have "(\<forall>b. on_chain h a b \<longrightarrow> no_empty_value (objs h b)) \<longrightarrow> Selector_stringify h a = Some s"
    apply (rule render_spec.raw_induct
        [where P = "\<lambda>h a s. (\<forall>b. on_chain h a b \<longrightarrow> no_empty_value (objs h b))
                       \<longrightarrow> Selector_stringify h a = Some s", OF _ assms(1)])
    subgoal premises prems for f h a s
    proof
      assume ne: "\<forall>b. on_chain h a b \<longrightarrow> no_empty_value (objs h b)"
      then have ne_a: "no_empty_value (objs h a)"
        by (simp add: on_chain_self)
      show "Selector_stringify h a = Some s"
      proof (cases "chained (objs h a)")
        case False
        with ne_a have "\<not> (combinator (objs h a) \<noteq> None \<and> selector2 (objs h a) \<noteq> None)"
          by (simp add: chained_iff_set)
        with prems(2) have "s = render_own_spec h (objs h a)"
          by auto
        with False ne_a show ?thesis
          by (simp add: stringify_last stringify_own_spec)
      next
        case True
        then obtain n where n: "selector2 (objs h a) = Some n"
          by (auto simp: chained_def)
        from True ne_a
        have set: "combinator (objs h a) \<noteq> None \<and> selector2 (objs h a) \<noteq> None"
          by (simp add: chained_iff_set)
        with n prems(2) obtain t where t: "f h n = Some t"
          and s: "s = render_own_spec h (objs h a) @ '' '' @ the (combinator (objs h a))
                       @ '' '' @ t"
          by (auto split: bind_splits)
        from ne True n have "\<forall>b. on_chain h n b \<longrightarrow> no_empty_value (objs h b)"
          by (blast intro: on_chain_from_next)
        with prems(1) [OF t] have "Selector_stringify h n = Some t" by blast
        with True n s ne_a show ?thesis
          by (simp add: stringify_chained stringify_own_spec)
      qed
    qed
    done
  with assms(2) show ?thesis by blast
qed

lemma stringify_eq_spec:
  assumes "\<forall>b. on_chain h a b \<longrightarrow> no_empty_value (objs h b)"
  shows "Selector_stringify h a = render_spec h a"
proof (cases "Selector_stringify h a")
  case (Some s)
  with assms show ?thesis by (simp add: stringify_to_spec)
next
  case None
  show ?thesis
  proof (cases "render_spec h a")
    case (Some s)
    with assms have "Selector_stringify h a = Some s" by (simp add: spec_to_stringify)
    with None show ?thesis by simp
  next
    case None
    with \<open>Selector_stringify h a = None\<close> show ?thesis by simp
  qed
qed

lemmas ex_defs =
  example_plus_def example_nested_def example_cycle_def example_left_nested_def
  example_both_nested_def example_operands_def empty_heap_def blank_def

text \<open>
  Claim C1 as stated fails where a field holds the empty string: \<open>stringify\<close> tests the
  fields for truth, so \<open>id('')\<close> renders as the empty string and not as \<open>#\<close>,
  \<open>pseudoElement('')\<close> as the empty string and not as \<open>::\<close>, and a combination with the
  combinator \<open>''\<close> renders as its left operand alone.
\<close>

theorem render_rule_counterexample:
  "(case cssSelectorBuilder_id empty_heap [] of
      Inl e \<Rightarrow> False
    | Inr (a, h) \<Rightarrow> Selector_stringify h a = Some [] \<and> render_spec h a = Some ''#'')
   \<and> (case cssSelectorBuilder_pseudoElement empty_heap [] of
      Inl e \<Rightarrow> False
    | Inr (a, h) \<Rightarrow> Selector_stringify h a = Some [] \<and> render_spec h a = Some ''::'')
   \<and> (case combine_of (\<lambda>h. cssSelectorBuilder_element h ''div'') []
             (\<lambda>h. cssSelectorBuilder_element h ''p'') empty_heap of
      Inl e \<Rightarrow> False
    | Inr (a, h) \<Rightarrow>
        Selector_stringify h a = Some ''div'' \<and> render_spec h a = Some ''div  p'')"
  by (simp add: ex_defs run_defs rank_simps Selector_stringify.simps render_spec.simps
      render_own_spec_def)

text \<open>
  Claim C1, amended. When no object that the rendering reaches holds the empty string
  as its id, pseudo-element or combinator, \<open>stringify\<close> and the rule of the
  specification agree: both return the same string, or neither returns.
\<close>

theorem stringify_follows_rule:
  assumes "\<forall>b. on_chain h a b \<longrightarrow> no_empty_value (objs h b)"
  shows "Selector_stringify h a = render_spec h a"
  using assms by (rule stringify_eq_spec)

theorem stringify_follows_rule_witness:
  "(\<forall>b. no_empty_value (objs (heap_of example_nested) b))
   \<and> Selector_stringify (heap_of example_nested) 6 = render_spec (heap_of example_nested) 6
   \<and> render_spec (heap_of example_nested) 6
       = Some ''div#main.container.draggable + table#data ~ tr:nth-of-type(even)   td:nth-of-type(even)''"
proof -
  have all: "\<forall>b. no_empty_value (objs (heap_of example_nested) b)"
    by (simp add: ex_defs run_defs rank_simps no_empty_value_def)
  then have ne: "\<forall>b. on_chain (heap_of example_nested) 6 b
                   \<longrightarrow> no_empty_value (objs (heap_of example_nested) b)"
    by blast
  have "Selector_stringify (heap_of example_nested) 6
          = Some ''div#main.container.draggable + table#data ~ tr:nth-of-type(even)   td:nth-of-type(even)''"
    by (simp add: ex_defs run_defs rank_simps Selector_stringify.simps)
  with stringify_follows_rule [OF ne] all show ?thesis by simp
qed

subsection \<open>When rendering returns, and what it depends on\<close>


lemma same_on_chain_next:
  assumes "same_on_chain h h' a" and "chained (objs h a)" and "selector2 (objs h a) = Some n"
  shows "same_on_chain h h' n"
  using assms unfolding same_on_chain_def by (blast intro: on_chain_from_next)

lemma same_on_chain_self:
  assumes "same_on_chain h h' a"
  shows "objs h' a = objs h a"
    and "stringify_own h' (objs h' a) = stringify_own h (objs h a)"
proof -
  from assms have "objs h' a = objs h a"
    and "arrs h' (classes (objs h a)) = arrs h (classes (objs h a))"
    and "arrs h' (attributes (objs h a)) = arrs h (attributes (objs h a))"
    and "arrs h' (pseudoClasses (objs h a)) = arrs h (pseudoClasses (objs h a))"
    unfolding same_on_chain_def by (simp_all add: on_chain_self)
  then show "objs h' a = objs h a"
    and "stringify_own h' (objs h' a) = stringify_own h (objs h a)"
    by (simp_all add: stringify_own_def)
qed

lemma frame_Some:
  assumes "Selector_stringify h a = Some s" and "same_on_chain h h' a"
  shows "Selector_stringify h' a = Some s"
proof -
  have "\<forall>h'. same_on_chain h h' a \<longrightarrow> Selector_stringify h' a = Some s"
    apply (rule Selector_stringify.raw_induct
        [where P = "\<lambda>h a s. \<forall>h'. same_on_chain h h' a \<longrightarrow> Selector_stringify h' a = Some s",
          OF _ assms(1)])
    subgoal premises prems for f h a s
    proof (intro allI impI)
      fix h'
      assume same: "same_on_chain h h' a"
      note here = same_on_chain_self [OF same]
      show "Selector_stringify h' a = Some s"
      proof (cases "chained (objs h a)")
        case False
        with prems(2) have "s = stringify_own h (objs h a)"
          by (auto simp: chained_def)
        with False here show ?thesis
          by (simp add: stringify_last)
      next
        case True
        then obtain n where n: "selector2 (objs h a) = Some n"
          by (auto simp: chained_def)
        with True prems(2) obtain t where t: "f h n = Some t"
          and s: "s = stringify_own h (objs h a) @ '' '' @ the (combinator (objs h a))
                       @ '' '' @ t"
          by (auto simp: chained_def split: bind_splits)
        from same True n have "same_on_chain h h' n"
          by (rule same_on_chain_next)
        with prems(1) [OF t] have "Selector_stringify h' n = Some t" by blast
        with True n s here show ?thesis
          by (simp add: stringify_chained)
      qed
    qed
    done
  with assms(2) show ?thesis by blast
qed

lemma on_chain_same:
  assumes "same_on_chain h h' a" and "on_chain h' a b"
  shows "on_chain h a b"
  using assms(2)
proof (induction rule: on_chain.induct)
  case on_chain_self
  show ?case by (rule on_chain.on_chain_self)
next
  case (on_chain_next b c)
  with assms(1) have "objs h' b = objs h b"
    by (simp add: same_on_chain_def)
  with on_chain_next show ?case
    by (auto intro: on_chain.on_chain_next)
qed

lemma same_on_chain_sym:
  assumes "same_on_chain h h' a"
  shows "same_on_chain h' h a"
  unfolding same_on_chain_def
proof (intro allI impI)
  fix b
  assume "on_chain h' a b"
  with assms have "on_chain h a b" by (rule on_chain_same)
  with assms show "objs h b = objs h' b
        \<and> arrs h (classes (objs h' b)) = arrs h' (classes (objs h' b))
        \<and> arrs h (attributes (objs h' b)) = arrs h' (attributes (objs h' b))
        \<and> arrs h (pseudoClasses (objs h' b)) = arrs h' (pseudoClasses (objs h' b))"
    by (simp add: same_on_chain_def)
qed

lemma frame:
  assumes "same_on_chain h h' a"
  shows "Selector_stringify h' a = Selector_stringify h a"
proof (cases "Selector_stringify h a")
  case (Some s)
  from this assms have "Selector_stringify h' a = Some s"
    by (rule frame_Some)
  with Some show ?thesis by simp
next
  case None
  show ?thesis
  proof (cases "Selector_stringify h' a")
    case (Some s)
    from this same_on_chain_sym [OF assms] have "Selector_stringify h a = Some s"
      by (rule frame_Some)
    with None show ?thesis by simp
  next
    case None
    with \<open>Selector_stringify h a = None\<close> show ?thesis by simp
  qed
qed

subsection \<open>Combination\<close>

lemma combine_returns:
  "index_of_selector (objs h this) \<le> 6 \<Longrightarrow>
   returns (Selector_combine h this selector1 symbol right)"
  by (simp add: call_defs rank_simps returns_def Let_def)

lemma facade_combine:
  assumes "selector1 < nobj h"
  shows "cssSelectorBuilder_combine h selector1 symbol right
           = Inr (nobj h, heap_of (cssSelectorBuilder_combine h selector1 symbol right))"
    and "objs (heap_of (cssSelectorBuilder_combine h selector1 symbol right)) (nobj h)
           = (objs h selector1)\<lparr>combinator := Some symbol, selector2 := Some right\<rparr>"
    and "b \<noteq> nobj h \<Longrightarrow>
           objs (heap_of (cssSelectorBuilder_combine h selector1 symbol right)) b = objs h b"
    and "nobj (heap_of (cssSelectorBuilder_combine h selector1 symbol right)) = nobj h + 1"
  using assms
  by (simp_all add: cssSelectorBuilder_combine_def new_Selector_def call_defs rank_simps
      heap_of_def Let_def)

lemma facade_combine_left:
  assumes "selector1 < nobj h"
  shows "objs (heap_of (cssSelectorBuilder_combine h selector1 symbol right)) selector1
           = objs h selector1"
  using assms by (simp add: facade_combine(3))

lemma facade_combine_own:
  assumes "selector1 < nobj h"
  shows "stringify_own H (objs (heap_of (cssSelectorBuilder_combine h selector1 symbol right))
                            (nobj h))
           = stringify_own H (objs h selector1)"
  using assms by (simp add: facade_combine(2) stringify_own_ignores)

lemma facade_combine_stringify:
  assumes "selector1 < nobj h" and "symbol \<noteq> []"
  shows "Selector_stringify (heap_of (cssSelectorBuilder_combine h selector1 symbol right))
           (nobj h)
         = map_option
             (\<lambda>sr. stringify_own (heap_of (cssSelectorBuilder_combine h selector1 symbol right))
                     (objs h selector1) @ '' '' @ symbol @ '' '' @ sr)
             (Selector_stringify (heap_of (cssSelectorBuilder_combine h selector1 symbol right))
                right)"
proof -
  let ?H = "heap_of (cssSelectorBuilder_combine h selector1 symbol right)"
  from assms(2) have c: "chained (objs ?H (nobj h))"
    by (simp add: facade_combine(2) [OF assms(1)] chained_def truthy_def)
  show ?thesis
    by (cases "Selector_stringify ?H right")
       (simp_all add: stringify_chained [OF c] facade_combine(2) [OF assms(1)]
         stringify_own_ignores)
qed

lemma facade_combine_empty:
  assumes "selector1 < nobj h"
  shows "Selector_stringify (heap_of (cssSelectorBuilder_combine h selector1 [] right)) (nobj h)
         = Some (stringify_own (heap_of (cssSelectorBuilder_combine h selector1 [] right))
                   (objs h selector1))"
proof -
  let ?H = "heap_of (cssSelectorBuilder_combine h selector1 [] right)"
  have c: "\<not> chained (objs ?H (nobj h))"
    by (simp add: facade_combine(2) [OF assms(1)] chained_def truthy_def)
  show ?thesis
    by (simp add: stringify_last [OF c] facade_combine(2) [OF assms(1)] stringify_own_ignores)
qed

lemma facade_combine_left_stringify:
  assumes "selector1 < nobj h" and "\<not> chained (objs h selector1)"
  shows "Selector_stringify (heap_of (cssSelectorBuilder_combine h selector1 symbol right))
           selector1
         = Some (stringify_own (heap_of (cssSelectorBuilder_combine h selector1 symbol right))
                   (objs h selector1))"
  using assms by (simp add: stringify_last facade_combine_left)

lemma narr_calls:
  "narr (heap_of (Selector_element h this v)) = narr h"
  "narr (heap_of (Selector_id h this v)) = narr h"
  "narr (heap_of (Selector_class h this v)) = narr h"
  "narr (heap_of (Selector_attr h this v)) = narr h"
  "narr (heap_of (Selector_pseudoClass h this v)) = narr h"
  "narr (heap_of (Selector_pseudoElement h this v)) = narr h"
  "narr (heap_of (Selector_combine h this selector1 symbol right)) = narr h"
  by (simp_all add: call_defs heap_of_def Let_def)

lemma narr_new: "narr (snd (new_Selector h)) = narr h + 3"
  by (simp add: new_Selector_def)

lemma refs_exist_new:
  "refs_exist (snd (new_Selector h)) (objs (snd (new_Selector h)) (nobj h))"
  "refs_exist h ob \<Longrightarrow> refs_exist (snd (new_Selector h)) ob"
  unfolding refs_exist_def nobj_new narr_new
  by (auto simp: new_Selector_def split: option.splits)

lemma refs_calls:
  "classes (objs (heap_of (Selector_element h this v)) a) = classes (objs h a)"
  "attributes (objs (heap_of (Selector_element h this v)) a) = attributes (objs h a)"
  "pseudoClasses (objs (heap_of (Selector_element h this v)) a) = pseudoClasses (objs h a)"
  "selector2 (objs (heap_of (Selector_element h this v)) a) = selector2 (objs h a)"
  "classes (objs (heap_of (Selector_id h this v)) a) = classes (objs h a)"
  "attributes (objs (heap_of (Selector_id h this v)) a) = attributes (objs h a)"
  "pseudoClasses (objs (heap_of (Selector_id h this v)) a) = pseudoClasses (objs h a)"
  "selector2 (objs (heap_of (Selector_id h this v)) a) = selector2 (objs h a)"
  "classes (objs (heap_of (Selector_class h this v)) a) = classes (objs h a)"
  "attributes (objs (heap_of (Selector_class h this v)) a) = attributes (objs h a)"
  "pseudoClasses (objs (heap_of (Selector_class h this v)) a) = pseudoClasses (objs h a)"
  "selector2 (objs (heap_of (Selector_class h this v)) a) = selector2 (objs h a)"
  "classes (objs (heap_of (Selector_attr h this v)) a) = classes (objs h a)"
  "attributes (objs (heap_of (Selector_attr h this v)) a) = attributes (objs h a)"
  "pseudoClasses (objs (heap_of (Selector_attr h this v)) a) = pseudoClasses (objs h a)"
  "selector2 (objs (heap_of (Selector_attr h this v)) a) = selector2 (objs h a)"
  "classes (objs (heap_of (Selector_pseudoClass h this v)) a) = classes (objs h a)"
  "attributes (objs (heap_of (Selector_pseudoClass h this v)) a) = attributes (objs h a)"
  "pseudoClasses (objs (heap_of (Selector_pseudoClass h this v)) a) = pseudoClasses (objs h a)"
  "selector2 (objs (heap_of (Selector_pseudoClass h this v)) a) = selector2 (objs h a)"
  "classes (objs (heap_of (Selector_pseudoElement h this v)) a) = classes (objs h a)"
  "attributes (objs (heap_of (Selector_pseudoElement h this v)) a) = attributes (objs h a)"
  "pseudoClasses (objs (heap_of (Selector_pseudoElement h this v)) a) = pseudoClasses (objs h a)"
  "selector2 (objs (heap_of (Selector_pseudoElement h this v)) a) = selector2 (objs h a)"
  by (simp_all add: call_defs heap_of_def)

lemma refs_exist_calls:
  assumes "refs_exist h (objs h a)"
  shows "refs_exist (heap_of (Selector_element h this v))
           (objs (heap_of (Selector_element h this v)) a)"
    and "refs_exist (heap_of (Selector_id h this v)) (objs (heap_of (Selector_id h this v)) a)"
    and "refs_exist (heap_of (Selector_class h this v))
           (objs (heap_of (Selector_class h this v)) a)"
    and "refs_exist (heap_of (Selector_attr h this v))
           (objs (heap_of (Selector_attr h this v)) a)"
    and "refs_exist (heap_of (Selector_pseudoClass h this v))
           (objs (heap_of (Selector_pseudoClass h this v)) a)"
    and "refs_exist (heap_of (Selector_pseudoElement h this v))
           (objs (heap_of (Selector_pseudoElement h this v)) a)"
  using assms
  by (simp_all add: refs_exist_def refs_calls nobj_calls narr_calls split: option.splits)

lemma refs_exist_combine:
  assumes "refs_exist h (objs h a)" and "refs_exist h (objs h selector1)" and "right < nobj h"
  shows "refs_exist (heap_of (Selector_combine h this selector1 symbol right))
           (objs (heap_of (Selector_combine h this selector1 symbol right)) a)"
  using assms unfolding refs_exist_def nobj_calls narr_calls
  by (auto simp: call_defs heap_of_def Let_def split: option.splits)

lemma reachable_refs_exist: "reachable h \<Longrightarrow> a < nobj h \<Longrightarrow> refs_exist h (objs h a)"
proof (induction arbitrary: a rule: reachable.induct)
  case reachable_empty
  then show ?case by (simp add: empty_heap_def)
next
  case (reachable_new h)
  show ?case
  proof (cases "a = nobj h")
    case True
    then show ?thesis by (simp add: refs_exist_new(1))
  next
    case False
    with reachable_new.prems have "a < nobj h" by (simp add: nobj_new)
    then have "refs_exist h (objs h a)" by (rule reachable_new.IH)
    then have "refs_exist (snd (new_Selector h)) (objs h a)" by (rule refs_exist_new(2))
    with False show ?thesis by (simp add: objs_new_other)
  qed
next
  case (reachable_combine h this selector1 right symbol)
  then show ?case by (simp add: nobj_calls refs_exist_combine)
qed (simp_all add: nobj_calls refs_exist_calls)

lemma on_chain_exists:
  assumes "reachable h" and "a < nobj h" and "on_chain h a b"
  shows "b < nobj h"
  using assms(3)
proof (induction rule: on_chain.induct)
  case on_chain_self
  from assms(2) show ?case .
next
  case (on_chain_next b c)
  from assms(1) on_chain_next.IH have "refs_exist h (objs h b)"
    by (rule reachable_refs_exist)
  with on_chain_next.hyps(3) show ?case
    by (simp add: refs_exist_def)
qed

lemma reachable_facade_combine:
  assumes "reachable h" and "selector1 < nobj h" and "right < nobj h"
  shows "reachable (heap_of (cssSelectorBuilder_combine h selector1 symbol right))"
proof -
  have n: "nobj (snd (new_Selector h)) = nobj h + 1" "fst (new_Selector h) = nobj h"
    by (simp_all add: new_Selector_def)
  from assms(1) have "reachable (snd (new_Selector h))"
    by (rule reachable_new)
  moreover have "fst (new_Selector h) < nobj (snd (new_Selector h))"
    using n by simp
  moreover from assms(2,3) have "selector1 < nobj (snd (new_Selector h))"
    and "right < nobj (snd (new_Selector h))"
    using n by simp_all
  ultimately have "reachable (heap_of (Selector_combine (snd (new_Selector h))
      (fst (new_Selector h)) selector1 symbol right))"
    by (rule reachable_combine)
  then show ?thesis
    by (simp add: cssSelectorBuilder_combine_def case_prod_beta)
qed

lemma facade_combine_arrs:
  "k < narr h \<Longrightarrow> arrs (heap_of (cssSelectorBuilder_combine h selector1 symbol right)) k = arrs h k"
  "narr (heap_of (cssSelectorBuilder_combine h selector1 symbol right)) = narr h + 3"
  by (simp_all add: cssSelectorBuilder_combine_def new_Selector_def call_defs rank_simps
      heap_of_def Let_def)

lemma facade_combine_same:
  assumes "reachable h" and "selector1 < nobj h" and "a < nobj h"
  shows "same_on_chain h (heap_of (cssSelectorBuilder_combine h selector1 symbol right)) a"
  unfolding same_on_chain_def
proof (intro allI impI)
  fix b
  let ?H = "heap_of (cssSelectorBuilder_combine h selector1 symbol right)"
  assume "on_chain h a b"
  with assms(1,3) have b: "b < nobj h" by (rule on_chain_exists)
  with assms(1) have "refs_exist h (objs h b)" by (rule reachable_refs_exist)
  then have "classes (objs h b) < narr h" "attributes (objs h b) < narr h"
    "pseudoClasses (objs h b) < narr h"
    by (simp_all add: refs_exist_def)
  moreover from b have "objs ?H b = objs h b"
    using facade_combine(3) [OF assms(2), of b symbol right] by simp
  ultimately show "objs ?H b = objs h b
      \<and> arrs ?H (classes (objs h b)) = arrs h (classes (objs h b))
      \<and> arrs ?H (attributes (objs h b)) = arrs h (attributes (objs h b))
      \<and> arrs ?H (pseudoClasses (objs h b)) = arrs h (pseudoClasses (objs h b))"
    by (simp add: facade_combine_arrs(1))
qed

lemma facade_combine_frame:
  assumes "reachable h" and "selector1 < nobj h" and "a < nobj h"
  shows "Selector_stringify (heap_of (cssSelectorBuilder_combine h selector1 symbol right)) a
         = Selector_stringify h a"
  using facade_combine_same [OF assms] by (rule frame)

lemma facade_combine_own_before:
  assumes "reachable h" and "selector1 < nobj h"
  shows "stringify_own (heap_of (cssSelectorBuilder_combine h selector1 symbol right))
           (objs h selector1)
         = stringify_own h (objs h selector1)"
proof -
  from assms have "refs_exist h (objs h selector1)" by (rule reachable_refs_exist)
  then show ?thesis
    by (simp add: refs_exist_def stringify_own_def facade_combine_arrs(1))
qed

text \<open>
  Claim C4 as stated fails in two cases. When the left operand is itself a combination,
  only its own fragments are copied and its right-hand operand is lost:
  \<open>combine(combine(a, '+', b), '~', c)\<close> renders as \<open>a ~ c\<close> although the left operand renders
  as \<open>a + b\<close>. When the symbol is the empty string, the result renders as the left
  operand alone.
\<close>

theorem combine_counterexample:
  "stringify_of example_left_nested = Some ''a ~ c''
   \<and> Selector_stringify (heap_of example_left_nested) 2 = Some ''a + b''
   \<and> Selector_stringify (heap_of example_left_nested) 3 = Some ''c''
   \<and> (case combine_of (\<lambda>h. cssSelectorBuilder_element h ''ul'') []
             (\<lambda>h. cssSelectorBuilder_element h ''li'') empty_heap of
        Inl e \<Rightarrow> False
      | Inr (a, h) \<Rightarrow>
          Selector_stringify h a = Some ''ul''
          \<and> Selector_stringify h 0 = Some ''ul'' \<and> Selector_stringify h 1 = Some ''li'')"
  by (simp add: ex_defs run_defs rank_simps Selector_stringify.simps)

lemma reachable_facade_element:
  assumes "reachable h"
  shows "reachable (heap_of (cssSelectorBuilder_element h v))"
proof -
  have "fst (new_Selector h) < nobj (snd (new_Selector h))"
    by (simp add: new_Selector_def)
  with reachable_new [OF assms]
  have "reachable (heap_of (Selector_element (snd (new_Selector h)) (fst (new_Selector h)) v))"
    by (rule reachable_element)
  then show ?thesis
    by (simp add: cssSelectorBuilder_element_def case_prod_beta)
qed

lemma reachable_operands: "reachable example_operands"
  unfolding example_operands_def
  by (intro reachable_facade_element reachable_empty)

text \<open>
  Claim C4, amended. In a store that calls have produced,
  \<open>cssSelectorBuilder.combine(left, symbol, right)\<close> for existing objects \<open>left\<close> and
  \<open>right\<close> returns a new object and changes no existing object and no existing array,
  so \<open>left\<close> and \<open>right\<close> render as before. The element, id, pseudo-element and the
  three array references of the new object are those of \<open>left\<close>, hence its classes,
  attributes and pseudo-classes are the lists \<open>left\<close> had before the call; its
  combinator is the symbol and its right-hand operand is \<open>right\<close>. When \<open>left\<close> is not
  itself a combination and the symbol is not empty, \<open>left\<close> renders, and the new object
  renders as the rendering of \<open>left\<close>, a space, the symbol, a space and the rendering of
  \<open>right\<close>, when \<open>right\<close> renders, and not at all otherwise. The example of the
  specification renders as \<open>div#main + table#data\<close>.
\<close>

theorem combine_renders:
  assumes "reachable h" and "selector1 < nobj h" and "right < nobj h"
    and "H = heap_of (cssSelectorBuilder_combine h selector1 symbol right)"
  shows "cssSelectorBuilder_combine h selector1 symbol right = Inr (nobj h, H)
    \<and> (\<forall>b. b < nobj h \<longrightarrow> objs H b = objs h b)
    \<and> (\<forall>k. k < narr h \<longrightarrow> arrs H k = arrs h k)
    \<and> Selector_stringify H selector1 = Selector_stringify h selector1
    \<and> Selector_stringify H right = Selector_stringify h right
    \<and> element_val (objs H (nobj h)) = element_val (objs h selector1)
    \<and> id_val (objs H (nobj h)) = id_val (objs h selector1)
    \<and> classes (objs H (nobj h)) = classes (objs h selector1)
    \<and> attributes (objs H (nobj h)) = attributes (objs h selector1)
    \<and> pseudoClasses (objs H (nobj h)) = pseudoClasses (objs h selector1)
    \<and> pseudoElement_val (objs H (nobj h)) = pseudoElement_val (objs h selector1)
    \<and> arrs H (classes (objs H (nobj h))) = arrs h (classes (objs h selector1))
    \<and> arrs H (attributes (objs H (nobj h))) = arrs h (attributes (objs h selector1))
    \<and> arrs H (pseudoClasses (objs H (nobj h))) = arrs h (pseudoClasses (objs h selector1))
    \<and> combinator (objs H (nobj h)) = Some symbol
    \<and> selector2 (objs H (nobj h)) = Some right
    \<and> (symbol \<noteq> [] \<and> \<not> chained (objs h selector1) \<longrightarrow>
         (\<exists>sl. Selector_stringify h selector1 = Some sl
            \<and> Selector_stringify H (nobj h)
                = map_option (\<lambda>sr. sl @ '' '' @ symbol @ '' '' @ sr)
                    (Selector_stringify h right)))
    \<and> stringify_of example_plus = Some ''div#main + table#data''"
proof -
  note fc = facade_combine [OF assms(2), where symbol = symbol and right = right]
  have res: "cssSelectorBuilder_combine h selector1 symbol right = Inr (nobj h, H)"
    unfolding assms(4) by (rule fc(1))
  have old_objs: "\<forall>b. b < nobj h \<longrightarrow> objs H b = objs h b"
    unfolding assms(4) using fc(3) by simp
  have old_arrs: "\<forall>k. k < narr h \<longrightarrow> arrs H k = arrs h k"
    unfolding assms(4) by (simp add: facade_combine_arrs(1))
  have sl: "Selector_stringify H selector1 = Selector_stringify h selector1"
    unfolding assms(4) using assms(1,2,2) by (rule facade_combine_frame)
  have sr: "Selector_stringify H right = Selector_stringify h right"
    unfolding assms(4) using assms(1,2,3) by (rule facade_combine_frame)
  have new: "objs H (nobj h)
      = (objs h selector1)\<lparr>combinator := Some symbol, selector2 := Some right\<rparr>"
    unfolding assms(4) by (rule fc(2))
  from assms(1,2) have "refs_exist h (objs h selector1)"
    by (rule reachable_refs_exist)
  then have below: "classes (objs h selector1) < narr h"
    "attributes (objs h selector1) < narr h" "pseudoClasses (objs h selector1) < narr h"
    by (simp_all add: refs_exist_def)
  have lists: "arrs H (classes (objs H (nobj h))) = arrs h (classes (objs h selector1))"
    "arrs H (attributes (objs H (nobj h))) = arrs h (attributes (objs h selector1))"
    "arrs H (pseudoClasses (objs H (nobj h))) = arrs h (pseudoClasses (objs h selector1))"
    using old_arrs below by (simp_all add: new)
  have render: "symbol \<noteq> [] \<and> \<not> chained (objs h selector1) \<longrightarrow>
         (\<exists>sl. Selector_stringify h selector1 = Some sl
            \<and> Selector_stringify H (nobj h)
                = map_option (\<lambda>sr. sl @ '' '' @ symbol @ '' '' @ sr)
                    (Selector_stringify h right))"
  proof
    assume a: "symbol \<noteq> [] \<and> \<not> chained (objs h selector1)"
    then have l: "Selector_stringify h selector1 = Some (stringify_own h (objs h selector1))"
      by (simp add: stringify_last)
    from a have "Selector_stringify H (nobj h)
        = map_option (\<lambda>sr. stringify_own H (objs h selector1) @ '' '' @ symbol @ '' '' @ sr)
            (Selector_stringify H right)"
      unfolding assms(4) using facade_combine_stringify [OF assms(2), of symbol right] by simp
    moreover have "stringify_own H (objs h selector1) = stringify_own h (objs h selector1)"
      unfolding assms(4) using assms(1,2) by (rule facade_combine_own_before)
    ultimately have "Selector_stringify H (nobj h)
        = map_option (\<lambda>sr. stringify_own h (objs h selector1) @ '' '' @ symbol @ '' '' @ sr)
            (Selector_stringify h right)"
      using sr by simp
    with l show "\<exists>sl. Selector_stringify h selector1 = Some sl
            \<and> Selector_stringify H (nobj h)
                = map_option (\<lambda>sr. sl @ '' '' @ symbol @ '' '' @ sr)
                    (Selector_stringify h right)"
      by simp
  qed
  have ex: "stringify_of example_plus = Some ''div#main + table#data''"
    by (simp add: ex_defs run_defs rank_simps Selector_stringify.simps)
  have fields: "element_val (objs H (nobj h)) = element_val (objs h selector1)"
    "id_val (objs H (nobj h)) = id_val (objs h selector1)"
    "classes (objs H (nobj h)) = classes (objs h selector1)"
    "attributes (objs H (nobj h)) = attributes (objs h selector1)"
    "pseudoClasses (objs H (nobj h)) = pseudoClasses (objs h selector1)"
    "pseudoElement_val (objs H (nobj h)) = pseudoElement_val (objs h selector1)"
    "combinator (objs H (nobj h)) = Some symbol"
    "selector2 (objs H (nobj h)) = Some right"
    by (simp_all add: new)
  from res old_objs old_arrs sl sr fields lists render ex show ?thesis
    by (intro conjI)
qed

theorem combine_renders_witness:
  "reachable example_operands
   \<and> (0::nat) < nobj example_operands
   \<and> (1::nat) < nobj example_operands
   \<and> ''>'' \<noteq> []
   \<and> \<not> chained (objs example_operands 0)
   \<and> Selector_stringify example_operands 0 = Some ''ul''
   \<and> Selector_stringify example_operands 1 = Some ''li''
   \<and> Selector_stringify (heap_of (cssSelectorBuilder_combine example_operands 0 ''>'' 1)) 0
       = Some ''ul''
   \<and> Selector_stringify (heap_of (cssSelectorBuilder_combine example_operands 0 ''>'' 1)) 3
       = Some ''ul > li''"
proof -
  let ?H = "heap_of (cssSelectorBuilder_combine example_operands 0 ''>'' 1)"
  have n: "nobj example_operands = 3"
    by (simp add: ex_defs run_defs rank_simps)
  then have lt: "0 < nobj example_operands" "1 < nobj example_operands" by simp_all
  have u: "\<not> chained (objs example_operands 0)"
    by (simp add: ex_defs run_defs rank_simps chained_def)
  have l: "Selector_stringify example_operands 0 = Some ''ul''"
    by (simp add: ex_defs run_defs rank_simps Selector_stringify.simps)
  have r: "Selector_stringify example_operands 1 = Some ''li''"
    by (simp add: ex_defs run_defs rank_simps Selector_stringify.simps)
  note t = combine_renders [OF reachable_operands lt refl, of "''>''"]
  from t l have l': "Selector_stringify ?H 0 = Some ''ul''"
    by simp
  from t u obtain sl where "Selector_stringify example_operands 0 = Some sl"
    and "Selector_stringify ?H (nobj example_operands)
          = map_option (\<lambda>sr. sl @ '' '' @ ''>'' @ '' '' @ sr)
              (Selector_stringify example_operands 1)"
    by auto
  with l r n have "Selector_stringify ?H 3 = Some ''ul > li''"
    by simp
  with reachable_operands lt u l r l' show ?thesis by simp
qed

text \<open>
  Claim C5 as stated fails for the empty string: the call is accepted, and the
  rendering is that of the left operand alone, without the two spaces and without
  the right operand.
\<close>

theorem any_symbol_counterexample:
  "(case combine_of (\<lambda>h. cssSelectorBuilder_element h ''nav'') []
           (\<lambda>h. cssSelectorBuilder_element h ''a'') empty_heap of
      Inl e \<Rightarrow> False
    | Inr (c, h) \<Rightarrow>
        combinator (objs h c) = Some [] \<and> selector2 (objs h c) = Some 1
        \<and> Selector_stringify h 1 = Some ''a'' \<and> Selector_stringify h c = Some ''nav'')"
  by (simp add: ex_defs run_defs rank_simps Selector_stringify.simps)

text \<open>
  Claim C5, amended. Every string is accepted as the symbol: the facade call returns
  for an existing left operand, the method returns on every receiver whose cursor is
  at most 6, and the symbol is stored as it is. A symbol that is not empty appears in
  the rendering of the result after the own fragments of the result, which are those
  of the left operand, and before the rendering of the right operand, with one space
  before and one after it. With the empty symbol the rendering consists of the own
  fragments alone.
\<close>

theorem combine_accepts_any_symbol:
  assumes "selector1 < nobj h"
    and "H = heap_of (cssSelectorBuilder_combine h selector1 symbol right)"
  shows "returns (cssSelectorBuilder_combine h selector1 symbol right)
    \<and> (index_of_selector (objs h this) \<le> 6 \<longrightarrow>
         returns (Selector_combine h this selector1 symbol right))
    \<and> combinator (objs H (nobj h)) = Some symbol
    \<and> stringify_own H (objs H (nobj h)) = stringify_own H (objs H selector1)
    \<and> (symbol \<noteq> [] \<longrightarrow>
         Selector_stringify H (nobj h)
           = map_option (\<lambda>sr. stringify_own H (objs H (nobj h)) @ '' '' @ symbol @ '' '' @ sr)
               (Selector_stringify H right))
    \<and> (symbol = [] \<longrightarrow>
         Selector_stringify H (nobj h) = Some (stringify_own H (objs H (nobj h))))"
proof -
  have "cssSelectorBuilder_combine h selector1 symbol right = Inr (nobj h, H)"
    unfolding assms(2) using assms(1) by (rule facade_combine(1))
  then have r: "returns (cssSelectorBuilder_combine h selector1 symbol right)"
    by (simp add: returns_def)
  have left: "objs H selector1 = objs h selector1"
    unfolding assms(2) using assms(1) by (rule facade_combine_left)
  have c: "combinator (objs H (nobj h)) = Some symbol"
    unfolding assms(2) by (simp add: facade_combine(2) [OF assms(1)])
  have own: "stringify_own H (objs H (nobj h)) = stringify_own H (objs H selector1)"
    unfolding left unfolding assms(2) using assms(1) by (rule facade_combine_own)
  have ne: "symbol \<noteq> [] \<longrightarrow>
         Selector_stringify H (nobj h)
           = map_option (\<lambda>sr. stringify_own H (objs H (nobj h)) @ '' '' @ symbol @ '' '' @ sr)
               (Selector_stringify H right)"
    unfolding own left unfolding assms(2)
    using facade_combine_stringify [OF assms(1), of symbol right] by simp
  have e: "symbol = [] \<longrightarrow>
         Selector_stringify H (nobj h) = Some (stringify_own H (objs H (nobj h)))"
    unfolding own left unfolding assms(2)
    using facade_combine_empty [OF assms(1), of right] by simp
  from r c own ne e show ?thesis
    by (simp add: combine_returns)
qed

theorem combine_accepts_any_symbol_witness:
  "(0::nat) < nobj (heap_of (cssSelectorBuilder_element
                    (heap_of (cssSelectorBuilder_element empty_heap ''ul'')) ''li''))
   \<and> ''not a combinator'' \<noteq> []
   \<and> returns (cssSelectorBuilder_combine
        (heap_of (cssSelectorBuilder_element
           (heap_of (cssSelectorBuilder_element empty_heap ''ul'')) ''li''))
        0 ''not a combinator'' 1)
   \<and> Selector_stringify
        (heap_of (cssSelectorBuilder_combine
           (heap_of (cssSelectorBuilder_element
              (heap_of (cssSelectorBuilder_element empty_heap ''ul'')) ''li''))
           0 ''not a combinator'' 1)) 2
      = Some ''ul not a combinator li''"
proof -
  let ?h = "heap_of (cssSelectorBuilder_element
              (heap_of (cssSelectorBuilder_element empty_heap ''ul'')) ''li'')"
  let ?H = "heap_of (cssSelectorBuilder_combine ?h 0 ''not a combinator'' 1)"
  have n: "nobj ?h = 2"
    by (simp add: ex_defs run_defs rank_simps)
  then have lt: "0 < nobj ?h" by simp
  have l: "stringify_own ?H (objs ?H 2) = ''ul''"
    by (simp add: ex_defs run_defs rank_simps)
  have r: "Selector_stringify ?H 1 = Some ''li''"
    by (simp add: ex_defs run_defs rank_simps Selector_stringify.simps)
  from combine_accepts_any_symbol [OF lt refl, of "''not a combinator''" 1 0] n
  have "returns (cssSelectorBuilder_combine ?h 0 ''not a combinator'' 1)"
    and "Selector_stringify ?H 2
          = map_option (\<lambda>sr. stringify_own ?H (objs ?H 2) @ '' '' @ ''not a combinator''
                              @ '' '' @ sr) (Selector_stringify ?H 1)"
    by simp_all
  with l r n show ?thesis by simp
qed

lemma returned_case:
  fixes x :: "addr outcome"
  assumes "x = Inr (a, heap_of x)"
  shows "(case x of Inl e \<Rightarrow> Inl e | Inr (a2, h2) \<Rightarrow> f h2 a2) = f (heap_of x) a"
  using assms by (cases x) (auto simp: heap_of_def)

lemma nested_combine:
  assumes A: "A < nobj h" and B: "B < nobj h"
    and na: "opa \<noteq> []" and nb: "opb \<noteq> []"
    and uA: "\<not> chained (objs h A)" and uB: "\<not> chained (objs h B)"
    and r: "r = combine_of (\<lambda>h. Inr (A, h)) opa
                  (combine_of (\<lambda>h. Inr (B, h)) opb (\<lambda>h. Inr (C, h))) h"
  shows "r = Inr (nobj h + 1, heap_of r)"
    and "Selector_stringify (heap_of r) A = Some (stringify_own (heap_of r) (objs h A))"
    and "Selector_stringify (heap_of r) B = Some (stringify_own (heap_of r) (objs h B))"
    and "Selector_stringify (heap_of r) (nobj h + 1)
          = map_option
              (\<lambda>sc. stringify_own (heap_of r) (objs h A) @ '' '' @ opa @ '' ''
                     @ stringify_own (heap_of r) (objs h B) @ '' '' @ opb @ '' '' @ sc)
              (Selector_stringify (heap_of r) C)"
proof -
  let ?h1 = "heap_of (cssSelectorBuilder_combine h B opb C)"
  let ?H = "heap_of (cssSelectorBuilder_combine ?h1 A opa (nobj h))"
  have inner: "cssSelectorBuilder_combine h B opb C = Inr (nobj h, ?h1)"
    using B by (rule facade_combine(1))
  have n1: "nobj ?h1 = nobj h + 1"
    using B by (rule facade_combine(4))
  with A have A1: "A < nobj ?h1" by simp
  have outer: "cssSelectorBuilder_combine ?h1 A opa (nobj h) = Inr (nobj ?h1, ?H)"
    using A1 by (rule facade_combine(1))
  have "r = cssSelectorBuilder_combine ?h1 A opa (nobj h)"
    unfolding r combine_of_def by (simp add: returned_case [OF inner])
  with outer n1 have r': "r = Inr (nobj h + 1, ?H)" by simp
  then have H: "heap_of r = ?H" by (simp add: heap_of_def)
  from A B have neq: "A \<noteq> nobj h" "B \<noteq> nobj h" "A \<noteq> nobj ?h1" "B \<noteq> nobj ?h1"
    "nobj h \<noteq> nobj ?h1"
    by (simp_all add: n1)
  have oA1: "objs ?h1 A = objs h A"
    using B neq(1) by (rule facade_combine(3))
  have oA: "objs ?H A = objs h A"
    using facade_combine(3) [OF A1 neq(3), of opa "nobj h"] oA1 by simp
  have oB: "objs ?H B = objs h B"
    using facade_combine(3) [OF A1 neq(4), of opa "nobj h"]
      facade_combine(3) [OF B neq(2), of opb C] by simp
  have obc: "objs ?H (nobj h) = (objs h B)\<lparr>combinator := Some opb, selector2 := Some C\<rparr>"
    using facade_combine(3) [OF A1 neq(5), of opa "nobj h"]
      facade_combine(2) [OF B, of opb C] by simp
  with nb have cbc: "chained (objs ?H (nobj h))"
    by (simp add: chained_def truthy_def)
  have sbc: "Selector_stringify ?H (nobj h)
      = map_option (\<lambda>sc. stringify_own ?H (objs h B) @ '' '' @ opb @ '' '' @ sc)
          (Selector_stringify ?H C)"
    by (cases "Selector_stringify ?H C")
       (simp_all add: stringify_chained [OF cbc] obc stringify_own_ignores)
  have sabc: "Selector_stringify ?H (nobj ?h1)
      = map_option (\<lambda>sr. stringify_own ?H (objs ?h1 A) @ '' '' @ opa @ '' '' @ sr)
          (Selector_stringify ?H (nobj h))"
    using A1 na by (rule facade_combine_stringify)
  from uA oA have "Selector_stringify ?H A = Some (stringify_own ?H (objs h A))"
    by (simp add: stringify_last)
  moreover from uB oB have "Selector_stringify ?H B = Some (stringify_own ?H (objs h B))"
    by (simp add: stringify_last)
  moreover have "Selector_stringify ?H (nobj h + 1)
      = map_option
          (\<lambda>sc. stringify_own ?H (objs h A) @ '' '' @ opa @ '' ''
                 @ stringify_own ?H (objs h B) @ '' '' @ opb @ '' '' @ sc)
          (Selector_stringify ?H C)"
    using sabc sbc n1 oA1 by (cases "Selector_stringify ?H C") simp_all
  ultimately show "r = Inr (nobj h + 1, heap_of r)"
    and "Selector_stringify (heap_of r) A = Some (stringify_own (heap_of r) (objs h A))"
    and "Selector_stringify (heap_of r) B = Some (stringify_own (heap_of r) (objs h B))"
    and "Selector_stringify (heap_of r) (nobj h + 1)
          = map_option
              (\<lambda>sc. stringify_own (heap_of r) (objs h A) @ '' '' @ opa @ '' ''
                     @ stringify_own (heap_of r) (objs h B) @ '' '' @ opb @ '' '' @ sc)
              (Selector_stringify (heap_of r) C)"
    unfolding H using r' H by simp_all
qed

lemma nested_combine_store:
  assumes A: "A < nobj h" and B: "B < nobj h"
    and r: "r = combine_of (\<lambda>h. Inr (A, h)) opa
                  (combine_of (\<lambda>h. Inr (B, h)) opb (\<lambda>h. Inr (C, h))) h"
  shows "heap_of r
         = heap_of (cssSelectorBuilder_combine
                      (heap_of (cssSelectorBuilder_combine h B opb C)) A opa (nobj h))"
proof -
  let ?h1 = "heap_of (cssSelectorBuilder_combine h B opb C)"
  have inner: "cssSelectorBuilder_combine h B opb C = Inr (nobj h, ?h1)"
    using B by (rule facade_combine(1))
  have "r = cssSelectorBuilder_combine ?h1 A opa (nobj h)"
    unfolding r combine_of_def by (simp add: returned_case [OF inner])
  then show ?thesis by simp
qed

lemma nested_combine_frame:
  assumes h: "reachable h" and A: "A < nobj h" and B: "B < nobj h" and C: "C < nobj h"
    and r: "r = combine_of (\<lambda>h. Inr (A, h)) opa
                  (combine_of (\<lambda>h. Inr (B, h)) opb (\<lambda>h. Inr (C, h))) h"
    and X: "X < nobj h"
  shows "Selector_stringify (heap_of r) X = Selector_stringify h X"
proof -
  let ?h1 = "heap_of (cssSelectorBuilder_combine h B opb C)"
  let ?H = "heap_of (cssSelectorBuilder_combine ?h1 A opa (nobj h))"
  have n1: "nobj ?h1 = nobj h + 1"
    using B by (rule facade_combine(4))
  from h B C have h1: "reachable ?h1"
    by (rule reachable_facade_combine)
  from A X n1 have A1: "A < nobj ?h1" and X1: "X < nobj ?h1"
    by simp_all
  from h1 A1 X1 have "Selector_stringify ?H X = Selector_stringify ?h1 X"
    by (rule facade_combine_frame)
  also from h B X have "\<dots> = Selector_stringify h X"
    by (rule facade_combine_frame)
  finally show ?thesis
    unfolding nested_combine_store [OF A B r] .
qed

text \<open>
  Claim C7 as stated fails when an operand on the left is itself a combination or a
  combinator is the empty string. \<open>combine(combine(a, '+', b), '>', combine(c, '~', d))\<close>
  renders as \<open>a > c ~ d\<close>, although its left operand renders as \<open>a + b\<close> and its right
  operand as \<open>c ~ d\<close>; and \<open>combine(element('h1'), '', element('em'))\<close> renders as \<open>h1\<close>,
  without a space.
\<close>

theorem combinator_spacing_counterexample:
  "stringify_of example_both_nested = Some ''a > c ~ d''
   \<and> Selector_stringify (heap_of example_both_nested) 2 = Some ''a + b''
   \<and> Selector_stringify (heap_of example_both_nested) 5 = Some ''c ~ d''
   \<and> stringify_of (combine_of (\<lambda>h. cssSelectorBuilder_element h ''h1'') []
                     (\<lambda>h. cssSelectorBuilder_element h ''em'') empty_heap) = Some ''h1''"
  by (simp add: ex_defs run_defs rank_simps Selector_stringify.simps)

text \<open>
  Claim C7, amended. Where \<open>stringify\<close> renders a combinator, that is, where the
  combinator is not empty and the right-hand operand is set, the output is the own
  fragments of the object, one space, the combinator, one space and the rendering of
  the right-hand operand, whatever the combinator is; for the combinator \<open>' '\<close> this
  gives three spaces between the two. In a store that calls have produced, for
  existing objects \<open>A\<close>, \<open>B\<close>, \<open>C\<close> of which \<open>A\<close> and \<open>B\<close> are not combinations, and for
  combinators that are not empty, \<open>combine(A, op1, combine(B, op2, C))\<close> returns a new
  object and leaves the renderings of \<open>A\<close>, \<open>B\<close> and \<open>C\<close> as they were; the new object
  renders as the rendering of \<open>A\<close>, \<open>op1\<close> between single spaces, the rendering of \<open>B\<close>,
  \<open>op2\<close> between single spaces, and the rendering of \<open>C\<close>. The example in the comment of
  the source renders as the comment says.
\<close>

theorem combinator_spacing:
  "(chained (objs h a) \<longrightarrow>
      Selector_stringify h a
        = map_option
            (\<lambda>s. stringify_own h (objs h a) @ [CHR '' ''] @ the (combinator (objs h a))
                  @ [CHR '' ''] @ s)
            (Selector_stringify h (the (selector2 (objs h a)))))
   \<and> (combinator (objs h a) = Some '' '' \<and> selector2 (objs h a) = Some n \<longrightarrow>
      Selector_stringify h a
        = map_option (\<lambda>s. stringify_own h (objs h a) @ ''   '' @ s) (Selector_stringify h n))
   \<and> (reachable h \<and> A < nobj h \<and> B < nobj h \<and> C < nobj h \<and> opa \<noteq> [] \<and> opb \<noteq> []
       \<and> \<not> chained (objs h A) \<and> \<not> chained (objs h B)
       \<and> r = combine_of (\<lambda>h. Inr (A, h)) opa
                (combine_of (\<lambda>h. Inr (B, h)) opb (\<lambda>h. Inr (C, h))) h \<longrightarrow>
      r = Inr (nobj h + 1, heap_of r)
      \<and> Selector_stringify (heap_of r) A = Selector_stringify h A
      \<and> Selector_stringify (heap_of r) B = Selector_stringify h B
      \<and> Selector_stringify (heap_of r) C = Selector_stringify h C
      \<and> (\<exists>sa sb. Selector_stringify h A = Some sa
            \<and> Selector_stringify h B = Some sb
            \<and> Selector_stringify (heap_of r) (nobj h + 1)
                = map_option
                    (\<lambda>sc. sa @ '' '' @ opa @ '' '' @ sb @ '' '' @ opb @ '' '' @ sc)
                    (Selector_stringify h C)))
   \<and> stringify_of example_nested
       = Some ''div#main.container.draggable + table#data ~ tr:nth-of-type(even)   td:nth-of-type(even)''"
proof -
  have one: "chained (objs h a) \<longrightarrow>
      Selector_stringify h a
        = map_option
            (\<lambda>s. stringify_own h (objs h a) @ [CHR '' ''] @ the (combinator (objs h a))
                  @ [CHR '' ''] @ s)
            (Selector_stringify h (the (selector2 (objs h a))))"
    by (cases "Selector_stringify h (the (selector2 (objs h a)))")
       (simp_all add: stringify_chained)
  have "combinator (objs h a) = Some '' '' \<and> selector2 (objs h a) = Some n \<longrightarrow> chained (objs h a)"
    by (simp add: chained_def truthy_def)
  with one have two: "combinator (objs h a) = Some '' '' \<and> selector2 (objs h a) = Some n \<longrightarrow>
      Selector_stringify h a
        = map_option (\<lambda>s. stringify_own h (objs h a) @ ''   '' @ s) (Selector_stringify h n)"
    by (cases "Selector_stringify h n") auto
  have three: "reachable h \<and> A < nobj h \<and> B < nobj h \<and> C < nobj h \<and> opa \<noteq> [] \<and> opb \<noteq> []
       \<and> \<not> chained (objs h A) \<and> \<not> chained (objs h B)
       \<and> r = combine_of (\<lambda>h. Inr (A, h)) opa
                (combine_of (\<lambda>h. Inr (B, h)) opb (\<lambda>h. Inr (C, h))) h \<longrightarrow>
      r = Inr (nobj h + 1, heap_of r)
      \<and> Selector_stringify (heap_of r) A = Selector_stringify h A
      \<and> Selector_stringify (heap_of r) B = Selector_stringify h B
      \<and> Selector_stringify (heap_of r) C = Selector_stringify h C
      \<and> (\<exists>sa sb. Selector_stringify h A = Some sa
            \<and> Selector_stringify h B = Some sb
            \<and> Selector_stringify (heap_of r) (nobj h + 1)
                = map_option
                    (\<lambda>sc. sa @ '' '' @ opa @ '' '' @ sb @ '' '' @ opb @ '' '' @ sc)
                    (Selector_stringify h C))"
  proof (intro impI, elim conjE)
    assume h: "reachable h" and lt: "A < nobj h" "B < nobj h" and C: "C < nobj h"
      and rest: "opa \<noteq> []" "opb \<noteq> []" "\<not> chained (objs h A)" "\<not> chained (objs h B)"
        "r = combine_of (\<lambda>h. Inr (A, h)) opa
               (combine_of (\<lambda>h. Inr (B, h)) opb (\<lambda>h. Inr (C, h))) h"
    note nc = nested_combine [OF lt rest]
    note fr = nested_combine_frame [OF h lt C rest(5)]
    have fA: "Selector_stringify (heap_of r) A = Selector_stringify h A"
      using lt(1) by (rule fr)
    have fB: "Selector_stringify (heap_of r) B = Selector_stringify h B"
      using lt(2) by (rule fr)
    have fC: "Selector_stringify (heap_of r) C = Selector_stringify h C"
      using C by (rule fr)
    from nc(2) fA have sa: "Selector_stringify h A = Some (stringify_own (heap_of r) (objs h A))"
      by simp
    from nc(3) fB have sb: "Selector_stringify h B = Some (stringify_own (heap_of r) (objs h B))"
      by simp
    from nc(4) fC sa sb
    have "\<exists>sa sb. Selector_stringify h A = Some sa
            \<and> Selector_stringify h B = Some sb
            \<and> Selector_stringify (heap_of r) (nobj h + 1)
                = map_option
                    (\<lambda>sc. sa @ '' '' @ opa @ '' '' @ sb @ '' '' @ opb @ '' '' @ sc)
                    (Selector_stringify h C)"
      by simp
    with nc(1) fA fB fC show "r = Inr (nobj h + 1, heap_of r)
      \<and> Selector_stringify (heap_of r) A = Selector_stringify h A
      \<and> Selector_stringify (heap_of r) B = Selector_stringify h B
      \<and> Selector_stringify (heap_of r) C = Selector_stringify h C
      \<and> (\<exists>sa sb. Selector_stringify h A = Some sa
            \<and> Selector_stringify h B = Some sb
            \<and> Selector_stringify (heap_of r) (nobj h + 1)
                = map_option
                    (\<lambda>sc. sa @ '' '' @ opa @ '' '' @ sb @ '' '' @ opb @ '' '' @ sc)
                    (Selector_stringify h C))"
      by (intro conjI)
  qed
  have four: "stringify_of example_nested
       = Some ''div#main.container.draggable + table#data ~ tr:nth-of-type(even)   td:nth-of-type(even)''"
    by (simp add: ex_defs run_defs rank_simps Selector_stringify.simps)
  from one two three four show ?thesis by (intro conjI)
qed

theorem combinator_spacing_witness:
  "reachable example_operands
   \<and> chained (objs (heap_of (combine_of (\<lambda>h. Inr (0, h)) ''>''
              (combine_of (\<lambda>h. Inr (1, h)) '' '' (\<lambda>h. Inr (2, h))) example_operands)) 3)
   \<and> Selector_stringify
        (heap_of (combine_of (\<lambda>h. Inr (0, h)) ''>''
              (combine_of (\<lambda>h. Inr (1, h)) '' '' (\<lambda>h. Inr (2, h))) example_operands)) 3
      = Some ''li   a''
   \<and> Selector_stringify example_operands 0 = Some ''ul''
   \<and> Selector_stringify example_operands 1 = Some ''li''
   \<and> Selector_stringify example_operands 2 = Some ''a''
   \<and> Selector_stringify
        (heap_of (combine_of (\<lambda>h. Inr (0, h)) ''>''
              (combine_of (\<lambda>h. Inr (1, h)) '' '' (\<lambda>h. Inr (2, h))) example_operands)) 4
      = Some ''ul > li   a''"
proof -
  let ?r = "combine_of (\<lambda>h. Inr (0, h)) ''>''
              (combine_of (\<lambda>h. Inr (1, h)) '' '' (\<lambda>h. Inr (2, h))) example_operands"
  let ?H = "heap_of ?r"
  have n: "nobj example_operands = 3"
    by (simp add: ex_defs run_defs rank_simps)
  have pre: "reachable example_operands
      \<and> 0 < nobj example_operands \<and> 1 < nobj example_operands \<and> 2 < nobj example_operands
      \<and> ''>'' \<noteq> [] \<and> '' '' \<noteq> []
      \<and> \<not> chained (objs example_operands 0) \<and> \<not> chained (objs example_operands 1)"
    using reachable_operands by (simp add: ex_defs run_defs rank_simps chained_def)
  have sA: "Selector_stringify example_operands 0 = Some ''ul''"
    and sB: "Selector_stringify example_operands 1 = Some ''li''"
    and sC: "Selector_stringify example_operands 2 = Some ''a''"
    by (simp_all add: ex_defs run_defs rank_simps Selector_stringify.simps)
  have sC': "Selector_stringify ?H 2 = Some ''a''"
    by (simp add: ex_defs run_defs rank_simps Selector_stringify.simps)
  have c3: "chained (objs ?H 3)"
    and f3: "combinator (objs ?H 3) = Some '' ''" "selector2 (objs ?H 3) = Some 2"
    and o3: "stringify_own ?H (objs ?H 3) = ''li''"
    by (simp_all add: ex_defs run_defs rank_simps chained_def)
  from combinator_spacing [where h = ?H and a = 3 and n = 2] f3 sC' o3
  have three: "Selector_stringify ?H 3 = Some ''li   a''"
    by simp
  from combinator_spacing [where h = example_operands and A = 0 and B = 1 and C = 2
      and opa = "''>''" and opb = "'' ''" and r = ?r] pre
  obtain sa sb where "Selector_stringify example_operands 0 = Some sa"
    and "Selector_stringify example_operands 1 = Some sb"
    and "Selector_stringify ?H (nobj example_operands + 1)
          = map_option (\<lambda>sc. sa @ '' '' @ ''>'' @ '' '' @ sb @ '' '' @ '' '' @ '' '' @ sc)
              (Selector_stringify example_operands 2)"
    by blast
  with sA sB sC n have "Selector_stringify ?H 4 = Some ''ul > li   a''"
    by simp
  with reachable_operands c3 three sA sB sC show ?thesis by simp
qed

subsection \<open>Fragment calls after a combination\<close>

lemma facade_combine_cursor:
  assumes "selector1 < nobj h"
  shows "index_of_selector
           (objs (heap_of (cssSelectorBuilder_combine h selector1 symbol right)) (nobj h))
         = index_of_selector (objs h selector1)"
  using assms by (simp add: facade_combine(2))

text \<open>
  Claim C6 says that every fragment call on the result of \<open>combine\<close> throws the
  ordering error. In \<open>combine\<close>, \<open>check_order('combine')\<close> sets the cursor of the
  receiver to 6, and \<open>Object.assign(this, selector1)\<close> then replaces it by the cursor of
  the left operand. After \<open>combine(element('div'), '+', element('p'))\<close> the cursor of the
  result is 0, the call \<open>id('main')\<close> on it returns, and the result renders as
  \<open>div#main + p\<close>.
\<close>

theorem fragment_after_combine:
  "index_of_selector
     (objs (heap_of (combine_of (\<lambda>h. cssSelectorBuilder_element h ''div'') ''+''
                       (\<lambda>h. cssSelectorBuilder_element h ''p'') empty_heap)) 2) = 0
   \<and> returns
       (then_call
         (combine_of (\<lambda>h. cssSelectorBuilder_element h ''div'') ''+''
            (\<lambda>h. cssSelectorBuilder_element h ''p'') empty_heap)
         (\<lambda>h a. Selector_id h a ''main''))
   \<and> stringify_of
       (then_call
         (combine_of (\<lambda>h. cssSelectorBuilder_element h ''div'') ''+''
            (\<lambda>h. cssSelectorBuilder_element h ''p'') empty_heap)
         (\<lambda>h a. Selector_id h a ''main''))
     = Some ''div#main + p''"
  by (simp add: ex_defs run_defs rank_simps Selector_stringify.simps)

subsection \<open>Stores built through the facade\<close>







subsection \<open>Rendering returns on finite chains\<close>





end
